theory Spec2Isabelle
  imports Main
begin

section \<open>The capture worker: data model\<close>

text \<open>
  The Durable Object class \<open>Browser\<close> of \<open>src/index.ts\<close> keeps one puppeteer browser,
  an idle counter and the alarm of its storage. The file holds two versions of the class:
  the Clerk-protected one (lines 63-168, here \<open>fetch\<close>) and a second one that iterates
  over a list of screen sizes (lines 185-291, here \<open>fetch2\<close>). Both share \<open>alarm\<close>.

  Everything the class awaits (puppeteer, the R2 bucket, the storage alarm, the clock, the
  random source of nanoid, the URL constructor) is outside the repository. Each call of an
  operation therefore takes an \<open>env\<close> that fixes how those calls answer during that one
  invocation, and returns, next to its result and the new object state, the list of the
  external calls it made, in order, each with a flag telling whether it resolved.
\<close>

subsection \<open>Values crossing the boundary\<close>

datatype json = JBool bool | JString string | JArray "json list"

datatype Body = Json "(string \<times> json) list" | Text string

datatype Response = Response Body nat | Redirect string nat

fun status :: "Response \<Rightarrow> nat" where
  "status (Response b c) = c"
| "status (Redirect u c) = c"

text \<open>
  A request is read through its method, through \<open>headers.get\<close> and through
  \<open>formData()\<close>. The last one rejects when the body does not parse as a form (a request
  without a body among them); \<open>None\<close> stands for that rejection.
\<close>

record Request =
  http_method :: string
  headers :: "string \<rightharpoonup> string"
  formData :: "(string \<rightharpoonup> string) option"

text \<open>What an operation can throw to whoever awaits it.\<close>

datatype exn = TypeError | CloseError | AuthError | StubError

text \<open>The external calls, as they appear in a trace.\<close>

datatype call =
    IsConnected
  | Launch
  | NewPage
  | SetViewport nat nat
  | Goto string
  | Screenshot string bool
  | Put string
  | PageClose
  | GetAlarm
  | SetAlarm nat
  | BrowserClose

type_synonym event = "call \<times> bool"

subsection \<open>The object state\<close>

text \<open>
  \<open>this.browser\<close> is a reference to a puppeteer browser object or null (the constructor
  leaves it unset, which is falsy as well). The object it points to answers
  \<open>isConnected()\<close>; nothing else holds a reference to it, so the object is kept inside
  the field.
\<close>

record puppeteer_Browser =
  ident :: nat
  connected :: bool

text \<open>
  \<open>this.storage\<close> is used for its alarm only. The storage is modelled as the list of the
  alarm times it was given and that have not fired yet, so that scheduling on top of a
  pending alarm would show as a second element. \<open>getAlarm\<close> and \<open>setAlarm\<close> always
  resolve.
\<close>

type_synonym DurableObjectStorage = "nat list"

record Session =
  browser :: "puppeteer_Browser option"
  keptAliveInSeconds :: int
  storage :: DurableObjectStorage

definition getAlarm :: "DurableObjectStorage \<Rightarrow> nat option" where
  "getAlarm st = (case st of [] \<Rightarrow> None | t # ts \<Rightarrow> Some t)"

definition setAlarm :: "nat \<Rightarrow> DurableObjectStorage \<Rightarrow> DurableObjectStorage" where
  "setAlarm t st = st @ [t]"

text \<open>The constructor (lines 70-75).\<close>

definition constructor :: Session where
  "constructor = \<lparr>browser = None, keptAliveInSeconds = 0, storage = []\<rparr>"

definition KEEP_BROWSER_ALIVE_IN_SECONDS :: int where
  "KEEP_BROWSER_ALIVE_IN_SECONDS = 60"

subsection \<open>The environment of one invocation\<close>

record env =
  url_ctor :: "string \<Rightarrow> string option"
  launch_result :: "nat option"
  newPage_ok :: bool
  setViewport_ok :: "nat \<Rightarrow> bool"
  goto_ok :: "nat \<Rightarrow> bool"
  screenshot_ok :: "nat \<Rightarrow> bool"
  put_ok :: "nat \<Rightarrow> bool"
  pageClose_ok :: bool
  browserClose_ok :: bool
  random :: "nat \<Rightarrow> nat"
  now :: nat

text \<open>
  \<open>url_ctor u\<close> is the \<open>href\<close> of \<open>new URL(u)\<close>, or \<open>None\<close> when the constructor throws
  its TypeError. \<open>launch_result\<close> is the identity of the browser \<open>puppeteer.launch\<close>
  resolves to, or \<open>None\<close> when it rejects. The page operations are indexed by the
  iteration of the screen-size loop (\<open>fetch\<close> has one pass, index 0). \<open>random i\<close> is the
  i-th draw of the random source, \<open>now\<close> is \<open>Date.now()\<close>.
\<close>

section \<open>Helpers of the platform\<close>

subsection \<open>btoa\<close>

text \<open>
  Header values are byte strings, so \<open>btoa\<close> never rejects one; it is the base64 encoding
  with padding.
\<close>

definition b64_alphabet :: string where
  "b64_alphabet = ''ABCDEFGHIJKLMNOPQRSTUVWXYZabcdefghijklmnopqrstuvwxyz0123456789+/''"

definition b64_digit :: "nat \<Rightarrow> char" where
  "b64_digit n = b64_alphabet ! (n mod 64)"

fun b64_encode :: "nat list \<Rightarrow> string" where
  "b64_encode [] = []"
| "b64_encode [a] =
     [b64_digit (a div 4), b64_digit ((a mod 4) * 16), CHR ''='', CHR ''='']"
| "b64_encode [a, b] =
     [b64_digit (a div 4), b64_digit ((a mod 4) * 16 + b div 16),
      b64_digit ((b mod 16) * 4), CHR ''='']"
| "b64_encode (a # b # c # rest) =
     [b64_digit (a div 4), b64_digit ((a mod 4) * 16 + b div 16),
      b64_digit ((b mod 16) * 4 + c div 64), b64_digit (c mod 64)] @ b64_encode rest"

definition btoa :: "string \<Rightarrow> string" where
  "btoa s = b64_encode (map of_char s)"

subsection \<open>utils.ts\<close>

text \<open>
  \<open>customAlphabet(alphabet, size)\<close> of nanoid returns a generator of strings of \<open>size\<close>
  characters, each drawn from \<open>alphabet\<close>; the draws are taken from the environment.
\<close>

definition customAlphabet :: "string \<Rightarrow> nat \<Rightarrow> (nat \<Rightarrow> nat) \<Rightarrow> string" where
  "customAlphabet alphabet len rnd = map (\<lambda>i. alphabet ! (rnd i mod length alphabet)) [0..<len]"

definition id_alphabet :: string where
  "id_alphabet = ''1234567890abcdefghijklmnopqrstuvwxyzABCDEFGHIJKLMNOPQRSTUVWXYZ''"

fun falsy :: "string option \<Rightarrow> bool" where
  "falsy None = True"
| "falsy (Some s) = (s = [])"

definition generateId :: "(nat \<Rightarrow> nat) \<Rightarrow> string option \<Rightarrow> string" where
  "generateId rnd suffix =
     ''O'' @ customAlphabet id_alphabet 6 rnd
       @ (case suffix of None \<Rightarrow> [] | Some sfx \<Rightarrow> if sfx = [] then [] else sfx)"

section \<open>Awaited calls\<close>

text \<open>
  A block of awaited calls runs them in order and stops at the first one that rejects.
  \<open>attempt\<close> returns the calls made and whether the block ran to its end.
\<close>

fun attempt :: "event list \<Rightarrow> event list \<times> bool" where
  "attempt [] = ([], True)"
| "attempt ((c, ok) # rest) =
     (if ok then (case attempt rest of (evs, r) \<Rightarrow> ((c, True) # evs, r))
      else ([(c, False)], False))"

section \<open>Browser.fetch (lines 77-148)\<close>

definition json_response :: "(string \<times> json) list \<Rightarrow> nat \<Rightarrow> Response" where
  "json_response payload code = Response (Json payload) code"

text \<open>Lines 95-103: reuse the open browser, or launch one.\<close>

definition acquire ::
  "env \<Rightarrow> Session \<Rightarrow> bool \<times> Session \<times> event list" where
  "acquire e s =
     (case browser s of
        None \<Rightarrow>
          (case launch_result e of
             None \<Rightarrow> (False, s, [(Launch, False)])
           | Some i \<Rightarrow>
               (True, s\<lparr>browser := Some \<lparr>ident = i, connected = True\<rparr>\<rparr>, [(Launch, True)]))
      | Some b \<Rightarrow>
          if connected b then (True, s, [(IsConnected, True)])
          else
            (case launch_result e of
               None \<Rightarrow> (False, s, [(IsConnected, True), (Launch, False)])
             | Some i \<Rightarrow>
                 (True, s\<lparr>browser := Some \<lparr>ident = i, connected = True\<rparr>\<rparr>,
                  [(IsConnected, True), (Launch, True)])))"

text \<open>Lines 119-131: the body of the try block.\<close>

definition page_operations ::
  "env \<Rightarrow> string \<Rightarrow> string \<Rightarrow> bool \<Rightarrow> string \<Rightarrow> event list \<times> bool" where
  "page_operations e href fileName fullPage bucketKey =
     attempt
      [(NewPage, newPage_ok e),
       (SetViewport 1920 1080, setViewport_ok e 0),
       (Goto href, goto_ok e 0),
       (Screenshot fileName fullPage, screenshot_ok e 0),
       (Put bucketKey, put_ok e 0),
       (PageClose, pageClose_ok e)]"

text \<open>Lines 139-145: set the first alarm when none is set.\<close>

definition first_alarm :: "env \<Rightarrow> Session \<Rightarrow> Session \<times> event list" where
  "first_alarm e s =
     (case getAlarm (storage s) of
        None \<Rightarrow>
          (s\<lparr>storage := setAlarm (now e + 10 * 1000) (storage s)\<rparr>,
           [(GetAlarm, True), (SetAlarm (now e + 10 * 1000), True)])
      | Some t \<Rightarrow> (s, [(GetAlarm, True)]))"

definition fetch ::
  "env \<Rightarrow> Request \<Rightarrow> Session \<Rightarrow> (exn + Response) \<times> Session \<times> event list" where
  "fetch e request s =
     (let urlHeader = headers request ''url'';
          userId = headers request ''user-id'';
          fullPage = headers request ''full-page''
      in
      case urlHeader of
        None \<Rightarrow>
          (Inr (json_response [(''success'', JBool False),
                 (''error'', JString ''Invalid capture options: Missing URL'')] 400), s, [])
      | Some u \<Rightarrow>
        if u = [] then
          (Inr (json_response [(''success'', JBool False),
                 (''error'', JString ''Invalid capture options: Missing URL'')] 400), s, [])
        else
        (case url_ctor e u of
           None \<Rightarrow> (Inl TypeError, s, [])
         | Some href \<Rightarrow>
           (case userId of
              None \<Rightarrow>
                (Inr (json_response [(''success'', JBool False),
                       (''error'', JString ''Invalid capture options: Missing user ID'')] 400), s, [])
            | Some uid \<Rightarrow>
              if uid = [] then
                (Inr (json_response [(''success'', JBool False),
                       (''error'', JString ''Invalid capture options: Missing user ID'')] 400), s, [])
              else
              (let folder = ''captures/user-'' @ btoa uid in
               case acquire e s of
                 (False, s1, ev1) \<Rightarrow>
                   (Inr (json_response [(''success'', JBool False),
                          (''error'', JString ''Failed to start browser'')] 500), s1, ev1)
               | (True, s1, ev1) \<Rightarrow>
                 (case browser s1 of
                    None \<Rightarrow>
                      (Inr (json_response [(''success'', JBool False),
                             (''error'', JString ''Browser initialization failed'')] 500), s1, ev1)
                  | Some b \<Rightarrow>
                    (let s2 = s1\<lparr>keptAliveInSeconds := 0\<rparr>;
                         captureKey = generateId (random e) None;
                         fileName = captureKey @ ''.jpg'';
                         bucketKey = folder @ ''/'' @ fileName
                     in
                     case page_operations e href fileName (\<not> falsy fullPage) bucketKey of
                       (ev2, False) \<Rightarrow>
                         (Inr (json_response [(''success'', JBool False),
                                (''error'', JString ''Error during page operations'')] 500),
                          s2, ev1 @ ev2)
                     | (ev2, True) \<Rightarrow>
                       (let s3 = s2\<lparr>keptAliveInSeconds := 0\<rparr> in
                        case first_alarm e s3 of
                          (s4, ev3) \<Rightarrow>
                            (Inr (json_response [(''success'', JBool True),
                                   (''key'', JString captureKey)] 200),
                             s4, ev1 @ ev2 @ ev3))))))))"

section \<open>Browser.alarm (lines 150-167)\<close>

definition alarm :: "env \<Rightarrow> Session \<Rightarrow> (exn + unit) \<times> Session \<times> event list" where
  "alarm e s =
     (let s1 = s\<lparr>keptAliveInSeconds := keptAliveInSeconds s + 10\<rparr> in
      if keptAliveInSeconds s1 < KEEP_BROWSER_ALIVE_IN_SECONDS then
        (Inr (), s1\<lparr>storage := setAlarm (now e + 10 * 1000) (storage s1)\<rparr>,
         [(SetAlarm (now e + 10 * 1000), True)])
      else
        (case browser s1 of
           None \<Rightarrow> (Inr (), s1, [])
         | Some b \<Rightarrow>
             if browserClose_ok e then
               (Inr (), s1\<lparr>browser := Some (b\<lparr>connected := False\<rparr>)\<rparr>, [(BrowserClose, True)])
             else (Inl CloseError, s1, [(BrowserClose, False)])))"

section \<open>The second Browser.fetch (lines 199-270)\<close>

text \<open>Template literals print a number in decimal.\<close>

fun decimal :: "nat \<Rightarrow> string" where
  "decimal n =
     (if n < 10 then [''0123456789'' ! n]
      else decimal (n div 10) @ [''0123456789'' ! (n mod 10)])"

definition width :: "nat list" where
  "width = [1920]"

definition height :: "nat list" where
  "height = [1080]"

text \<open>
  Lines 241-249: one pass per screen size; \<open>i\<close> is the loop index, \<open>keys\<close> the array
  \<open>captureKey\<close> built so far. \<open>None\<close> is a rejected call, which leaves the loop.
\<close>

fun screens_loop ::
  "env \<Rightarrow> string \<Rightarrow> string \<Rightarrow> nat \<Rightarrow> (nat \<times> nat) list \<Rightarrow> string list
     \<Rightarrow> event list \<times> string list option" where
  "screens_loop e href folder i [] keys = ([], Some keys)"
| "screens_loop e href folder i ((w, h) # rest) keys =
     (let fileName = href @ ''_'' @ decimal w @ ''x'' @ decimal h;
          key = folder @ ''/'' @ fileName @ ''.jpg''
      in
      case attempt
             [(SetViewport w h, setViewport_ok e i),
              (Goto href, goto_ok e i),
              (Screenshot (fileName @ ''.jpg'') False, screenshot_ok e i),
              (Put key, put_ok e i)] of
        (evs, False) \<Rightarrow> (evs, None)
      | (evs, True) \<Rightarrow>
          (case screens_loop e href folder (Suc i) rest (keys @ [key]) of
             (evs', r) \<Rightarrow> (evs @ evs', r)))"

text \<open>Lines 237-252: the body of the try block.\<close>

definition page_operations2 ::
  "env \<Rightarrow> string \<Rightarrow> string \<Rightarrow> event list \<times> string list option" where
  "page_operations2 e href folder =
     (if \<not> newPage_ok e then ([(NewPage, False)], None)
      else
        (case screens_loop e href folder 0 (zip width height) [] of
           (evs, None) \<Rightarrow> ((NewPage, True) # evs, None)
         | (evs, Some keys) \<Rightarrow>
             if pageClose_ok e then ((NewPage, True) # evs @ [(PageClose, True)], Some keys)
             else ((NewPage, True) # evs @ [(PageClose, False)], None)))"

definition fetch2 ::
  "env \<Rightarrow> Request \<Rightarrow> Session \<Rightarrow> (exn + Response) \<times> Session \<times> event list" where
  "fetch2 e request s =
     (let urlHeader = headers request ''url'';
          userId = headers request ''user-id''
      in
      case url_ctor e (case urlHeader of None \<Rightarrow> ''https://example.com'' | Some u \<Rightarrow> u) of
        None \<Rightarrow> (Inl TypeError, s, [])
      | Some href \<Rightarrow>
        (case userId of
           None \<Rightarrow> (Inr (Response (Text ''User ID not found'') 400), s, [])
         | Some uid \<Rightarrow>
           if uid = [] then (Inr (Response (Text ''User ID not found'') 400), s, [])
           else
           (let userFolder = ''user-'' @ btoa uid;
                folder = ''captures/'' @ userFolder
            in
            case acquire e s of
              (False, s1, ev1) \<Rightarrow>
                (Inr (Response (Text ''Failed to start browser'') 500), s1, ev1)
            | (True, s1, ev1) \<Rightarrow>
              (case browser s1 of
                 None \<Rightarrow>
                   (Inr (Response (Text ''Browser initialization failed'') 500), s1, ev1)
               | Some b \<Rightarrow>
                 (let s2 = s1\<lparr>keptAliveInSeconds := 0\<rparr> in
                  case page_operations2 e href folder of
                    (ev2, None) \<Rightarrow>
                      (Inr (Response (Text ''Error during page operations'') 500),
                       s2, ev1 @ ev2)
                  | (ev2, Some captureKey) \<Rightarrow>
                    (let s3 = s2\<lparr>keptAliveInSeconds := 0\<rparr> in
                     case first_alarm e s3 of
                       (s4, ev3) \<Rightarrow>
                         (Inr (json_response [(''sucess'', JBool True),
                                (''captureKey'', JArray (map JString captureKey))] 200),
                          s4, ev1 @ ev2 @ ev3)))))))"

section \<open>The worker entry point (lines 21-59)\<close>

text \<open>
  What the worker awaits besides the session. \<open>clerk\<close> is the answer of Clerk for the
  request: \<open>None\<close> when creating the client or authenticating rejects, otherwise
  \<open>authState?.userId\<close> together with the sign-in address of the request state.
  \<open>headers_ctor\<close> is the \<open>Request\<close> constructor of line 49 on its header list: the
  headers that \<open>get\<close> will answer with, or \<open>None\<close> when it throws its TypeError on a value
  that is no header value. \<open>stub_ok\<close> tells whether the call through the stub reaches the
  Durable Object; when it does not, the call rejects and the object's \<open>fetch\<close> does not run.
  The Durable Object named \<open>browser\<close> is the one session \<open>s\<close>. The address of an
  incoming request always parses, so line 23 does not throw.
\<close>

record worker_env =
  clerk :: "(string option \<times> string) option"
  headers_ctor :: "(string \<times> string) list \<Rightarrow> (string \<rightharpoonup> string) option"
  stub_ok :: bool

definition BUCKET_ORIGIN :: string where
  "BUCKET_ORIGIN = ''https://r2.clipster.dev''"

definition worker_fetch ::
  "worker_env \<Rightarrow> env \<Rightarrow> Request \<Rightarrow> Session \<Rightarrow> (exn + Response) \<times> Session \<times> event list" where
  "worker_fetch w e request s =
     (case clerk w of
        None \<Rightarrow> (Inl AuthError, s, [])
      | Some (authUserId, signInUrl) \<Rightarrow>
        (case authUserId of
           None \<Rightarrow> (Inr (Redirect signInUrl 307), s, [])
         | Some uid \<Rightarrow>
           if uid = [] then (Inr (Redirect signInUrl 307), s, [])
           else if http_method request = ''GET'' then
             (Inr (Response
                    (Text (''Hello from the browser Durable Object! Bucket origin: ''
                       @ BUCKET_ORIGIN))
                    200), s, [])
           else if http_method request = ''POST'' then
             (case formData request of
                None \<Rightarrow> (Inl TypeError, s, [])
              | Some form \<Rightarrow>
                (case form ''url'' of
                   None \<Rightarrow> (Inr (Response (Text ''Invalid capture options'') 400), s, [])
                 | Some u \<Rightarrow>
                   if u = [] then (Inr (Response (Text ''Invalid capture options'') 400), s, [])
                   else
                     (case headers_ctor w [(''user-id'', uid), (''url'', u)] of
                        None \<Rightarrow> (Inl TypeError, s, [])
                      | Some hs \<Rightarrow>
                          if \<not> stub_ok w then (Inl StubError, s, [])
                          else
                            fetch e \<lparr>http_method = ''GET'', headers = hs, formData = None\<rparr> s)))
           else (Inr (Response (Text ''Invalid method'') 405), s, [])))"

section \<open>Runs of one session\<close>

text \<open>
  What can happen to a session: a capture request reaches one of the two \<open>fetch\<close>
  versions, the storage fires the pending alarm, or the remote browser drops its
  connection by itself. When an alarm fires it leaves the storage and \<open>alarm()\<close> runs;
  with no alarm pending nothing fires. When \<open>alarm()\<close> rejects, the runtime keeps the
  alarm and invokes the handler again later: the alarm is pending again, and the next
  tick is that retry. The operations of one session run one after the other, each to its
  end, which is the single-actor discipline the session is written for.
\<close>

datatype action = Capture Request | Capture2 Request | Tick | Disconnect

definition deliver :: "env \<Rightarrow> Session \<Rightarrow> Session \<times> event list" where
  "deliver e s =
     (case storage s of
        [] \<Rightarrow> (s, [])
      | t # ts \<Rightarrow>
          (case alarm e (s\<lparr>storage := ts\<rparr>) of
             (Inr u, s', evs) \<Rightarrow> (s', evs)
           | (Inl x, s', evs) \<Rightarrow> (s'\<lparr>storage := t # storage s'\<rparr>, evs)))"

definition disconnect :: "Session \<Rightarrow> Session" where
  "disconnect s =
     (case browser s of
        None \<Rightarrow> s
      | Some b \<Rightarrow> s\<lparr>browser := Some (b\<lparr>connected := False\<rparr>)\<rparr>)"

fun step :: "env \<times> action \<Rightarrow> Session \<Rightarrow> Session \<times> event list" where
  "step (e, Capture r) s = (case fetch e r s of (res, s', evs) \<Rightarrow> (s', evs))"
| "step (e, Capture2 r) s = (case fetch2 e r s of (res, s', evs) \<Rightarrow> (s', evs))"
| "step (e, Tick) s = deliver e s"
| "step (e, Disconnect) s = (disconnect s, [])"

fun run :: "(env \<times> action) list \<Rightarrow> Session \<times> event list \<Rightarrow> Session \<times> event list" where
  "run [] st = st"
| "run (a # as) (s, tr) = (case step a s of (s', evs) \<Rightarrow> run as (s', tr @ evs))"

section \<open>Observations on traces, requests and responses\<close>

subsection \<open>Counting calls in a trace\<close>

definition pages_opened :: "event list \<Rightarrow> nat" where
  "pages_opened evs = length (filter (\<lambda>ev. ev = (NewPage, True)) evs)"

definition page_closes :: "event list \<Rightarrow> nat" where
  "page_closes evs = length (filter (\<lambda>ev. fst ev = PageClose) evs)"

definition browser_closes :: "event list \<Rightarrow> nat" where
  "browser_closes evs = length (filter (\<lambda>ev. fst ev = BrowserClose) evs)"

definition launches :: "event list \<Rightarrow> nat" where
  "launches evs = length (filter (\<lambda>ev. fst ev = Launch) evs)"

definition alarms_set :: "event list \<Rightarrow> nat" where
  "alarms_set evs = length (filter (\<lambda>ev. case fst ev of SetAlarm t \<Rightarrow> True | _ \<Rightarrow> False) evs)"

text \<open>The keys of the bucket writes that resolved, and the \<open>fullPage\<close> option of the
  screenshots taken.\<close>

definition put_keys :: "event list \<Rightarrow> string list" where
  "put_keys evs = concat (map (\<lambda>ev. case ev of (Put k, True) \<Rightarrow> [k] | _ \<Rightarrow> []) evs)"

definition screenshot_flags :: "event list \<Rightarrow> bool list" where
  "screenshot_flags evs =
     concat (map (\<lambda>ev. case fst ev of Screenshot f p \<Rightarrow> [p] | _ \<Rightarrow> []) evs)"

subsection \<open>Requests that are turned away\<close>

definition url_missing :: "Request \<Rightarrow> bool" where
  "url_missing r = falsy (headers r ''url'')"

definition url_malformed :: "env \<Rightarrow> Request \<Rightarrow> bool" where
  "url_malformed e r =
     (case headers r ''url'' of None \<Rightarrow> False | Some u \<Rightarrow> u \<noteq> [] \<and> url_ctor e u = None)"

definition url2_malformed :: "env \<Rightarrow> Request \<Rightarrow> bool" where
  "url2_malformed e r =
     (url_ctor e (case headers r ''url'' of None \<Rightarrow> ''https://example.com'' | Some u \<Rightarrow> u)
        = None)"

definition user_missing :: "Request \<Rightarrow> bool" where
  "user_missing r = falsy (headers r ''user-id'')"

definition missing_url_response :: Response where
  "missing_url_response =
     json_response [(''success'', JBool False),
       (''error'', JString ''Invalid capture options: Missing URL'')] 400"

definition missing_user_response :: Response where
  "missing_user_response =
     json_response [(''success'', JBool False),
       (''error'', JString ''Invalid capture options: Missing user ID'')] 400"

subsection \<open>The response shapes of the specification\<close>

text \<open>
  These follow the wording of the specification, to be compared with what the code
  returns: a failure is \<open>{ success: false, error: <classification> }\<close>, and a success
  carries its storage keys in the field \<open>key\<close> or \<open>keys\<close>, which \<open>spec_response_keys\<close>
  reads.
\<close>

fun spec_failure :: "Response \<Rightarrow> bool" where
  "spec_failure (Response (Json [(k1, JBool False), (k2, JString msg)]) c) =
     (k1 = ''success'' \<and> k2 = ''error'')"
| "spec_failure other = False"

fun json_strings :: "json \<Rightarrow> string list" where
  "json_strings (JString k) = [k]"
| "json_strings (JArray js) = concat (map (\<lambda>j. case j of JString k \<Rightarrow> [k] | _ \<Rightarrow> []) js)"
| "json_strings (JBool b) = []"

fun spec_response_keys :: "Response \<Rightarrow> string list" where
  "spec_response_keys (Response (Json payload) c) =
     (case map_of payload ''key'' of
        Some j \<Rightarrow> json_strings j
      | None \<Rightarrow> (case map_of payload ''keys'' of Some j \<Rightarrow> json_strings j | None \<Rightarrow> []))"
| "spec_response_keys (Response (Text t) c) = []"
| "spec_response_keys (Redirect u c) = []"

subsection \<open>The handle invariant of the specification\<close>

text \<open>
  The specification's reading of a trace: a launch has succeeded and no teardown has
  completed since.
\<close>

definition handle_step :: "bool \<Rightarrow> event \<Rightarrow> bool" where
  "handle_step live ev =
     (if ev = (Launch, True) then True else if ev = (BrowserClose, True) then False else live)"

definition spec_handle_live :: "event list \<Rightarrow> bool" where
  "spec_handle_live tr = foldl handle_step False tr"

definition launched :: "event list \<Rightarrow> bool" where
  "launched tr = ((Launch, True) \<in> set tr)"

text \<open>What \<open>fetch\<close> itself tests before it reuses the handle (line 95).\<close>

definition usable :: "Session \<Rightarrow> bool" where
  "usable s = (case browser s of None \<Rightarrow> False | Some b \<Rightarrow> connected b)"

subsection \<open>Ticks in a row\<close>

definition ticks :: "env list \<Rightarrow> (env \<times> action) list" where
  "ticks es = map (\<lambda>e. (e, Tick)) es"

subsection \<open>Concrete inputs\<close>

text \<open>
  An environment in which every call resolves; its URL constructor knows one address and
  rejects every other string. A worker environment with a signed-in user, in which the
  request of line 49 is built and reaches the object. A request as the worker builds it.
\<close>

definition env_ok :: env where
  "env_ok =
     \<lparr>url_ctor = [''https://example.com'' \<mapsto> ''https://example.com/''],
      launch_result = Some 1, newPage_ok = True, setViewport_ok = (\<lambda>i. True),
      goto_ok = (\<lambda>i. True), screenshot_ok = (\<lambda>i. True), put_ok = (\<lambda>i. True),
      pageClose_ok = True, browserClose_ok = True, random = (\<lambda>i. i), now = 5000\<rparr>"

definition worker_ok :: worker_env where
  "worker_ok =
     \<lparr>clerk = Some (Some ''user_42'', ''https://clipster.dev/sign-in''),
      headers_ctor = (\<lambda>kvs. Some (map_of kvs)), stub_ok = True\<rparr>"

definition capture_request :: "string \<Rightarrow> string \<Rightarrow> Request" where
  "capture_request u uid =
     \<lparr>http_method = ''GET'', headers = [''user-id'' \<mapsto> uid, ''url'' \<mapsto> u],
      formData = None\<rparr>"


definition full_page_request :: "string \<Rightarrow> Request" where
  "full_page_request v =
     \<lparr>http_method = ''GET'',
      headers = [''user-id'' \<mapsto> ''user_42'', ''url'' \<mapsto> ''https://example.com'',
                 ''full-page'' \<mapsto> v],
      formData = None\<rparr>"

text \<open>
  The session as a first capture leaves it; a capture followed by the six ticks of a
  whole countdown; captures on both sides of a tick; a countdown whose first \<open>close()\<close>
  rejects and whose retry resolves.
\<close>

definition warm_session :: Session where
  "warm_session =
     \<lparr>browser = Some \<lparr>ident = 1, connected = True\<rparr>, keptAliveInSeconds = 0,
      storage = [15000]\<rparr>"

definition idle_script :: "(env \<times> action) list" where
  "idle_script =
     [(env_ok, Capture (capture_request ''https://example.com'' ''user_42'')),
      (env_ok, Tick), (env_ok, Tick), (env_ok, Tick), (env_ok, Tick), (env_ok, Tick),
      (env_ok, Tick)]"

definition busy_script :: "(env \<times> action) list" where
  "busy_script =
     [(env_ok, Capture (capture_request ''https://example.com'' ''user_42'')),
      (env_ok, Capture (capture_request ''https://example.com'' ''user_42'')),
      (env_ok, Tick),
      (env_ok, Capture2 (capture_request ''https://example.com'' ''user_42''))]"

definition retry_ticks :: "(env \<times> action) list" where
  "retry_ticks =
     [(env_ok, Tick), (env_ok, Tick), (env_ok, Tick), (env_ok, Tick), (env_ok, Tick),
      (env_ok\<lparr>browserClose_ok := False\<rparr>, Tick), (env_ok, Tick)]"

section \<open>Properties of the parts\<close>

subsection \<open>Acquiring the browser\<close>

lemma acquire_connected:
  "browser s = Some b \<Longrightarrow> connected b \<Longrightarrow> acquire e s = (True, s, [(IsConnected, True)])"
  by (simp add: acquire_def)

lemma acquire_keeps:
  "acquire e s = (ok, s1, ev1) \<Longrightarrow>
     keptAliveInSeconds s1 = keptAliveInSeconds s \<and> storage s1 = storage s"
  by (auto simp: acquire_def split: option.splits if_splits)

lemma acquire_True:
  "acquire e s = (True, s1, ev1) \<Longrightarrow> \<exists>b. browser s1 = Some b \<and> connected b"
  by (auto simp: acquire_def split: option.splits if_splits)

lemma acquire_False:
  "acquire e s = (False, s1, ev1) \<Longrightarrow> s1 = s \<and> (Launch, False) \<in> set ev1"
  by (auto simp: acquire_def split: option.splits if_splits)

lemma acquire_events:
  "acquire e s = (ok, s1, ev1) \<Longrightarrow>
     set ev1 \<subseteq> {(IsConnected, True), (Launch, True), (Launch, False)}"
  by (auto simp: acquire_def split: option.splits if_splits)

lemma acquire_browser:
  "acquire e s = (ok, s1, ev1) \<Longrightarrow>
     (if (Launch, True) \<in> set ev1
      then \<exists>i. browser s1 = Some \<lparr>ident = i, connected = True\<rparr>
      else browser s1 = browser s)"
  by (auto simp: acquire_def split: option.splits if_splits)

lemma acquire_handle:
  "acquire e s = (ok, s1, ev1) \<Longrightarrow>
     (BrowserClose, True) \<notin> set ev1
     \<and> (if (Launch, True) \<in> set ev1
        then (\<exists>i. browser s1 = Some \<lparr>ident = i, connected = True\<rparr>) \<and> (Launch, False) \<notin> set ev1
        else browser s1 = browser s)"
  by (auto simp: acquire_def split: option.splits if_splits)

lemma acquire_True_resolved:
  "acquire e s = (True, s1, ev1) \<Longrightarrow> \<forall>ev\<in>set ev1. snd ev"
  by (auto simp: acquire_def split: option.splits if_splits)

subsection \<open>The first alarm\<close>

lemma first_alarm_none:
  "storage s = [] \<Longrightarrow>
     first_alarm e s =
       (s\<lparr>storage := [now e + 10 * 1000]\<rparr>,
        [(GetAlarm, True), (SetAlarm (now e + 10 * 1000), True)])"
  by (simp add: first_alarm_def getAlarm_def setAlarm_def)

lemma first_alarm_pending:
  "storage s \<noteq> [] \<Longrightarrow> first_alarm e s = (s, [(GetAlarm, True)])"
  by (cases "storage s") (simp_all add: first_alarm_def getAlarm_def)

lemma first_alarm_effect:
  "first_alarm e s = (s', evs) \<Longrightarrow>
     browser s' = browser s \<and> keptAliveInSeconds s' = keptAliveInSeconds s \<and>
     (if storage s = []
      then storage s' = [now e + 10 * 1000]
         \<and> evs = [(GetAlarm, True), (SetAlarm (now e + 10 * 1000), True)]
      else storage s' = storage s \<and> evs = [(GetAlarm, True)])"
  by (cases "storage s = []") (auto simp: first_alarm_none first_alarm_pending)

lemma first_alarm_storage:
  "first_alarm e s = (s', ev3) \<Longrightarrow>
     (storage s = [] \<longrightarrow> length (storage s') = 1 \<and> alarms_set ev3 = 1)
     \<and> (storage s \<noteq> [] \<longrightarrow> storage s' = storage s \<and> alarms_set ev3 = 0)"
  by (cases "storage s = []")
    (auto simp: first_alarm_none first_alarm_pending alarms_set_def)

lemma first_alarm_handle:
  "first_alarm e s = (s', ev3) \<Longrightarrow>
     browser s' = browser s \<and> (BrowserClose, x) \<notin> set ev3 \<and> (Launch, y) \<notin> set ev3"
  by (auto simp: first_alarm_def split: option.splits)

lemma first_alarm_resolved:
  "first_alarm e s = (s', ev3) \<Longrightarrow> \<forall>ev\<in>set ev3. snd ev"
  by (auto simp: first_alarm_def split: option.splits)

subsection \<open>The page operations\<close>

lemma page_operations_unfold:
  "page_operations e href fn fp key =
     (if \<not> newPage_ok e then ([(NewPage, False)], False)
      else if \<not> setViewport_ok e 0 then
        ([(NewPage, True), (SetViewport 1920 1080, False)], False)
      else if \<not> goto_ok e 0 then
        ([(NewPage, True), (SetViewport 1920 1080, True), (Goto href, False)], False)
      else if \<not> screenshot_ok e 0 then
        ([(NewPage, True), (SetViewport 1920 1080, True), (Goto href, True),
          (Screenshot fn fp, False)], False)
      else if \<not> put_ok e 0 then
        ([(NewPage, True), (SetViewport 1920 1080, True), (Goto href, True),
          (Screenshot fn fp, True), (Put key, False)], False)
      else
        ([(NewPage, True), (SetViewport 1920 1080, True), (Goto href, True),
          (Screenshot fn fp, True), (Put key, True), (PageClose, pageClose_ok e)],
         pageClose_ok e))"
  by (simp add: page_operations_def)

lemma decimal_1920: "decimal 1920 = ''1920''"
  by simp

lemma decimal_1080: "decimal 1080 = ''1080''"
  by simp

lemma page_operations2_unfold:
  "page_operations2 e href folder =
     (let fn = href @ ''_1920x1080''; key = folder @ ''/'' @ fn @ ''.jpg'' in
      if \<not> newPage_ok e then ([(NewPage, False)], None)
      else if \<not> setViewport_ok e 0 then
        ([(NewPage, True), (SetViewport 1920 1080, False)], None)
      else if \<not> goto_ok e 0 then
        ([(NewPage, True), (SetViewport 1920 1080, True), (Goto href, False)], None)
      else if \<not> screenshot_ok e 0 then
        ([(NewPage, True), (SetViewport 1920 1080, True), (Goto href, True),
          (Screenshot (fn @ ''.jpg'') False, False)], None)
      else if \<not> put_ok e 0 then
        ([(NewPage, True), (SetViewport 1920 1080, True), (Goto href, True),
          (Screenshot (fn @ ''.jpg'') False, True), (Put key, False)], None)
      else
        ([(NewPage, True), (SetViewport 1920 1080, True), (Goto href, True),
          (Screenshot (fn @ ''.jpg'') False, True), (Put key, True), (PageClose, pageClose_ok e)],
         if pageClose_ok e then Some [key] else None))"
  by (simp add: page_operations2_def width_def height_def Let_def decimal_1920 decimal_1080 del: decimal.simps)

lemma page_operations_True:
  "page_operations e href fn fp key = (ev2, True) \<Longrightarrow>
     ev2 = [(NewPage, True), (SetViewport 1920 1080, True), (Goto href, True),
            (Screenshot fn fp, True), (Put key, True), (PageClose, True)]"
  by (auto simp: page_operations_unfold split: if_splits)

lemma page_operations_False:
  "page_operations e href fn fp key = (ev2, False) \<Longrightarrow>
     \<exists>c. c \<noteq> Launch \<and> (c, False) \<in> set ev2"
  by (auto simp: page_operations_unfold split: if_splits)

lemma page_operations2_None:
  "page_operations2 e href folder = (ev2, None) \<Longrightarrow>
     \<exists>c. c \<noteq> Launch \<and> (c, False) \<in> set ev2"
  by (auto simp: page_operations2_unfold Let_def split: if_splits)

lemma page_operations_handle:
  "page_operations e href fn fp key = (ev2, ok) \<Longrightarrow>
     (BrowserClose, x) \<notin> set ev2 \<and> (Launch, y) \<notin> set ev2"
  by (auto simp: page_operations_unfold split: if_splits)

lemma page_operations2_handle:
  "page_operations2 e href folder = (ev2, keys) \<Longrightarrow>
     (BrowserClose, x) \<notin> set ev2 \<and> (Launch, y) \<notin> set ev2"
  by (auto simp: page_operations2_unfold Let_def split: if_splits)

subsection \<open>The capture id\<close>

lemma length_id_alphabet: "length id_alphabet = 62"
  by (simp add: id_alphabet_def)

lemma generateId_shape:
  "generateId rnd None = CHR ''O'' # customAlphabet id_alphabet 6 rnd
   \<and> length (customAlphabet id_alphabet 6 rnd) = 6
   \<and> set (customAlphabet id_alphabet 6 rnd) \<subseteq> set id_alphabet"
proof -
  have "id_alphabet ! (rnd i mod length id_alphabet) \<in> set id_alphabet" for i
    by (rule nth_mem) (simp add: length_id_alphabet)
  then show ?thesis
    by (auto simp: generateId_def customAlphabet_def)
qed

subsection \<open>Counting in traces\<close>

lemma pages_opened_append: "pages_opened (xs @ ys) = pages_opened xs + pages_opened ys"
  by (simp add: pages_opened_def)

lemma page_closes_append: "page_closes (xs @ ys) = page_closes xs + page_closes ys"
  by (simp add: page_closes_def)

lemma browser_closes_append: "browser_closes (xs @ ys) = browser_closes xs + browser_closes ys"
  by (simp add: browser_closes_def)

lemma alarms_set_append: "alarms_set (xs @ ys) = alarms_set xs + alarms_set ys"
  by (simp add: alarms_set_def)

lemma launches_append: "launches (xs @ ys) = launches xs + launches ys"
  by (simp add: launches_def)

lemma put_keys_append: "put_keys (xs @ ys) = put_keys xs @ put_keys ys"
  by (simp add: put_keys_def)

lemma screenshot_flags_append:
  "screenshot_flags (xs @ ys) = screenshot_flags xs @ screenshot_flags ys"
  by (simp add: screenshot_flags_def)

lemma acquire_no_page:
  "acquire e s = (ok, s1, ev1) \<Longrightarrow> pages_opened ev1 = 0 \<and> page_closes ev1 = 0"
  by (auto simp: acquire_def pages_opened_def page_closes_def split: option.splits if_splits)

lemma first_alarm_no_page:
  "first_alarm e s = (s', ev3) \<Longrightarrow> pages_opened ev3 = 0 \<and> page_closes ev3 = 0"
  by (auto simp: first_alarm_def pages_opened_def page_closes_def split: option.splits)

lemma page_operations_closes:
  "page_operations e href fn fp key = (ev2, ok) \<Longrightarrow>
     pages_opened ev2 = (if newPage_ok e then 1 else 0) \<and>
     page_closes ev2 =
       (if newPage_ok e \<and> setViewport_ok e 0 \<and> goto_ok e 0 \<and> screenshot_ok e 0 \<and> put_ok e 0
        then 1 else 0)"
  by (auto simp: page_operations_unfold pages_opened_def page_closes_def split: if_splits)

lemma acquire_no_put: "acquire e s = (ok, s1, ev1) \<Longrightarrow> put_keys ev1 = []"
  by (auto simp: acquire_def put_keys_def split: option.splits if_splits)

lemma first_alarm_no_put: "first_alarm e s = (s', ev3) \<Longrightarrow> put_keys ev3 = []"
  by (auto simp: first_alarm_def put_keys_def split: option.splits)

lemma acquire_no_screenshot: "acquire e s = (ok, s1, ev1) \<Longrightarrow> screenshot_flags ev1 = []"
  by (auto simp: acquire_def screenshot_flags_def split: option.splits if_splits)

lemma first_alarm_no_screenshot: "first_alarm e s = (s', ev3) \<Longrightarrow> screenshot_flags ev3 = []"
  by (auto simp: first_alarm_def screenshot_flags_def split: option.splits)

lemma page_operations_screenshot:
  "page_operations e href fn fp key = (ev2, ok) \<Longrightarrow>
     screenshot_flags ev2 =
       (if newPage_ok e \<and> setViewport_ok e 0 \<and> goto_ok e 0 then [fp] else [])"
  by (auto simp: page_operations_unfold screenshot_flags_def split: if_splits)

lemma acquire_no_alarm: "acquire e s = (ok, s1, ev1) \<Longrightarrow> alarms_set ev1 = 0"
  by (auto simp: acquire_def alarms_set_def split: option.splits if_splits)

lemma page_operations_no_alarm:
  "page_operations e href fn fp key = (ev2, ok) \<Longrightarrow> alarms_set ev2 = 0"
  by (auto simp: page_operations_unfold alarms_set_def split: if_splits)

lemma page_operations2_no_alarm:
  "page_operations2 e href folder = (ev2, keys) \<Longrightarrow> alarms_set ev2 = 0"
  by (auto simp: page_operations2_unfold Let_def alarms_set_def split: if_splits)

lemma page_operations_no_browser:
  "page_operations e href fn fp key = (ev2, ok) \<Longrightarrow> browser_closes ev2 = 0 \<and> launches ev2 = 0"
  by (auto simp: page_operations_unfold browser_closes_def launches_def split: if_splits)

lemma first_alarm_no_browser:
  "first_alarm e s = (s', ev3) \<Longrightarrow> browser_closes ev3 = 0 \<and> launches ev3 = 0"
  by (auto simp: first_alarm_def browser_closes_def launches_def split: option.splits)

subsection \<open>The ways out of fetch\<close>

lemma fetch_valid:
  assumes "headers r ''url'' = Some u" "u \<noteq> []" "url_ctor e u = Some href"
    and "headers r ''user-id'' = Some uid" "uid \<noteq> []"
  shows "fetch e r s =
     (case acquire e s of
        (False, s1, ev1) \<Rightarrow>
          (Inr (json_response [(''success'', JBool False),
                 (''error'', JString ''Failed to start browser'')] 500), s1, ev1)
      | (True, s1, ev1) \<Rightarrow>
        (case browser s1 of
           None \<Rightarrow>
             (Inr (json_response [(''success'', JBool False),
                    (''error'', JString ''Browser initialization failed'')] 500), s1, ev1)
         | Some b \<Rightarrow>
           (case page_operations e href (generateId (random e) None @ ''.jpg'')
                   (\<not> falsy (headers r ''full-page''))
                   (''captures/user-'' @ btoa uid @ ''/'' @ generateId (random e) None @ ''.jpg'') of
              (ev2, False) \<Rightarrow>
                (Inr (json_response [(''success'', JBool False),
                       (''error'', JString ''Error during page operations'')] 500),
                 s1\<lparr>keptAliveInSeconds := 0\<rparr>, ev1 @ ev2)
            | (ev2, True) \<Rightarrow>
                (case first_alarm e (s1\<lparr>keptAliveInSeconds := 0\<rparr>) of
                   (s4, ev3) \<Rightarrow>
                     (Inr (json_response [(''success'', JBool True),
                            (''key'', JString (generateId (random e) None))] 200),
                      s4, ev1 @ ev2 @ ev3)))))"
  using assms by (auto simp: fetch_def Let_def split: prod.splits option.splits bool.splits)

lemma fetch_cases [consumes 1, case_names missing_url bad_url missing_user launch_failed page_failed success]:
  assumes "fetch e r s = (res, s', evs)"
  obtains
    "falsy (headers r ''url'')"
      "res = Inr (json_response [(''success'', JBool False),
                 (''error'', JString ''Invalid capture options: Missing URL'')] 400)"
      "s' = s" "evs = []"
  | u where "headers r ''url'' = Some u" "u \<noteq> []" "url_ctor e u = None"
      "res = Inl TypeError" "s' = s" "evs = []"
  | u href where "headers r ''url'' = Some u" "u \<noteq> []" "url_ctor e u = Some href"
      "falsy (headers r ''user-id'')"
      "res = Inr (json_response [(''success'', JBool False),
                 (''error'', JString ''Invalid capture options: Missing user ID'')] 400)"
      "s' = s" "evs = []"
  | u href uid where "headers r ''url'' = Some u" "u \<noteq> []" "url_ctor e u = Some href"
      "headers r ''user-id'' = Some uid" "uid \<noteq> []"
      "acquire e s = (False, s, evs)"
      "res = Inr (json_response [(''success'', JBool False),
                 (''error'', JString ''Failed to start browser'')] 500)"
      "s' = s"
  | u href uid s1 ev1 ev2 where "headers r ''url'' = Some u" "u \<noteq> []" "url_ctor e u = Some href"
      "headers r ''user-id'' = Some uid" "uid \<noteq> []"
      "acquire e s = (True, s1, ev1)"
      "page_operations e href (generateId (random e) None @ ''.jpg'')
         (\<not> falsy (headers r ''full-page''))
         (''captures/user-'' @ btoa uid @ ''/'' @ generateId (random e) None @ ''.jpg'')
        = (ev2, False)"
      "res = Inr (json_response [(''success'', JBool False),
                 (''error'', JString ''Error during page operations'')] 500)"
      "s' = s1\<lparr>keptAliveInSeconds := 0\<rparr>" "evs = ev1 @ ev2"
  | u href uid s1 ev1 ev2 ev3 where "headers r ''url'' = Some u" "u \<noteq> []" "url_ctor e u = Some href"
      "headers r ''user-id'' = Some uid" "uid \<noteq> []"
      "acquire e s = (True, s1, ev1)"
      "page_operations e href (generateId (random e) None @ ''.jpg'')
         (\<not> falsy (headers r ''full-page''))
         (''captures/user-'' @ btoa uid @ ''/'' @ generateId (random e) None @ ''.jpg'')
        = (ev2, True)"
      "first_alarm e (s1\<lparr>keptAliveInSeconds := 0\<rparr>) = (s', ev3)"
      "res = Inr (json_response [(''success'', JBool True),
                 (''key'', JString (generateId (random e) None))] 200)"
      "evs = ev1 @ ev2 @ ev3"
proof (cases "falsy (headers r ''url'')")
  case True
  then have "fetch e r s =
      (Inr (json_response [(''success'', JBool False),
                 (''error'', JString ''Invalid capture options: Missing URL'')] 400), s, [])"
    by (cases "headers r ''url''") (simp_all add: fetch_def Let_def)
  with assms have "res = Inr (json_response [(''success'', JBool False),
                 (''error'', JString ''Invalid capture options: Missing URL'')] 400)"
      "s' = s" "evs = []"
    by simp_all
  with True show ?thesis by (rule that(1))
next
  case False
  then obtain u where u: "headers r ''url'' = Some u" "u \<noteq> []"
    by (cases "headers r ''url''") auto
  show ?thesis
  proof (cases "url_ctor e u")
    case None
    with u have "fetch e r s = (Inl TypeError, s, [])"
      by (simp add: fetch_def Let_def)
    with assms have "res = Inl TypeError" "s' = s" "evs = []"
      by simp_all
    with u None show ?thesis by (rule that(2))
  next
    case (Some href)
    note href = this
    show ?thesis
    proof (cases "falsy (headers r ''user-id'')")
      case True
      with u href have "fetch e r s =
          (Inr (json_response [(''success'', JBool False),
                 (''error'', JString ''Invalid capture options: Missing user ID'')] 400), s, [])"
        by (cases "headers r ''user-id''") (simp_all add: fetch_def Let_def)
      with assms have "res = Inr (json_response [(''success'', JBool False),
                 (''error'', JString ''Invalid capture options: Missing user ID'')] 400)"
          "s' = s" "evs = []"
        by simp_all
      with u href True show ?thesis by (rule that(3))
    next
      case False
      then obtain uid where uid: "headers r ''user-id'' = Some uid" "uid \<noteq> []"
        by (cases "headers r ''user-id''") auto
      note valid = fetch_valid [OF u href uid, of s]
      obtain ok s1 ev1 where acq: "acquire e s = (ok, s1, ev1)"
        by (cases "acquire e s") auto
      show ?thesis
      proof (cases ok)
        case False
        with acq have acq': "acquire e s = (False, s1, ev1)" by simp
        then have s1: "s1 = s" by (simp add: acquire_False)
        from valid acq' have "fetch e r s =
            (Inr (json_response [(''success'', JBool False),
                 (''error'', JString ''Failed to start browser'')] 500), s1, ev1)"
          by simp
        with assms s1 have "res = Inr (json_response [(''success'', JBool False),
                 (''error'', JString ''Failed to start browser'')] 500)"
            "s' = s" "evs = ev1"
          by simp_all
        with u href uid acq' s1 show ?thesis
          using that(4) by simp
      next
        case True
        with acq have acq': "acquire e s = (True, s1, ev1)" by simp
        then obtain b where b: "browser s1 = Some b"
          by (auto dest: acquire_True)
        obtain ev2 okp where pg:
          "page_operations e href (generateId (random e) None @ ''.jpg'')
             (\<not> falsy (headers r ''full-page''))
             (''captures/user-'' @ btoa uid @ ''/'' @ generateId (random e) None @ ''.jpg'')
            = (ev2, okp)"
          by (cases "page_operations e href (generateId (random e) None @ ''.jpg'')
             (\<not> falsy (headers r ''full-page''))
             (''captures/user-'' @ btoa uid @ ''/'' @ generateId (random e) None @ ''.jpg'')") auto
        show ?thesis
        proof (cases okp)
          case False
          with pg have pg': "page_operations e href (generateId (random e) None @ ''.jpg'')
             (\<not> falsy (headers r ''full-page''))
             (''captures/user-'' @ btoa uid @ ''/'' @ generateId (random e) None @ ''.jpg'')
            = (ev2, False)" by simp
          from valid acq' b pg' have "fetch e r s =
              (Inr (json_response [(''success'', JBool False),
                 (''error'', JString ''Error during page operations'')] 500),
               s1\<lparr>keptAliveInSeconds := 0\<rparr>, ev1 @ ev2)"
            by simp
          with assms have "res = Inr (json_response [(''success'', JBool False),
                 (''error'', JString ''Error during page operations'')] 500)"
              "s' = s1\<lparr>keptAliveInSeconds := 0\<rparr>" "evs = ev1 @ ev2"
            by simp_all
          with u href uid acq' pg' show ?thesis
            by (rule that(5))
        next
          case okT: True
          with pg have pg': "page_operations e href (generateId (random e) None @ ''.jpg'')
             (\<not> falsy (headers r ''full-page''))
             (''captures/user-'' @ btoa uid @ ''/'' @ generateId (random e) None @ ''.jpg'')
            = (ev2, True)" by simp
          obtain s4 ev3 where fa: "first_alarm e (s1\<lparr>keptAliveInSeconds := 0\<rparr>) = (s4, ev3)"
            by (cases "first_alarm e (s1\<lparr>keptAliveInSeconds := 0\<rparr>)") auto
          from valid acq' b pg' fa have "fetch e r s =
              (Inr (json_response [(''success'', JBool True),
                 (''key'', JString (generateId (random e) None))] 200), s4, ev1 @ ev2 @ ev3)"
            by simp
          with assms have r: "res = Inr (json_response [(''success'', JBool True),
                 (''key'', JString (generateId (random e) None))] 200)"
              "s4 = s'" "evs = ev1 @ ev2 @ ev3"
            by simp_all
          from fa r(2) have fa': "first_alarm e (s1\<lparr>keptAliveInSeconds := 0\<rparr>) = (s', ev3)"
            by simp
          from u href uid acq' pg' fa' r(1) r(3) show ?thesis
            by (rule that(6))
        qed
      qed
    qed
  qed
qed

lemma fetch2_valid:
  assumes "url_ctor e (case headers r ''url'' of None \<Rightarrow> ''https://example.com'' | Some u \<Rightarrow> u)
             = Some href"
    and "headers r ''user-id'' = Some uid" "uid \<noteq> []"
  shows "fetch2 e r s =
     (case acquire e s of
        (False, s1, ev1) \<Rightarrow>
          (Inr (Response (Text ''Failed to start browser'') 500), s1, ev1)
      | (True, s1, ev1) \<Rightarrow>
        (case browser s1 of
           None \<Rightarrow> (Inr (Response (Text ''Browser initialization failed'') 500), s1, ev1)
         | Some b \<Rightarrow>
           (case page_operations2 e href (''captures/user-'' @ btoa uid) of
              (ev2, None) \<Rightarrow>
                (Inr (Response (Text ''Error during page operations'') 500),
                 s1\<lparr>keptAliveInSeconds := 0\<rparr>, ev1 @ ev2)
            | (ev2, Some captureKey) \<Rightarrow>
                (case first_alarm e (s1\<lparr>keptAliveInSeconds := 0\<rparr>) of
                   (s4, ev3) \<Rightarrow>
                     (Inr (json_response [(''sucess'', JBool True),
                            (''captureKey'', JArray (map JString captureKey))] 200),
                      s4, ev1 @ ev2 @ ev3)))))"
  using assms by (auto simp: fetch2_def Let_def split: prod.splits option.splits bool.splits)

lemma fetch2_cases [consumes 1, case_names bad_url missing_user launch_failed page_failed success]:
  assumes "fetch2 e r s = (res, s', evs)"
  obtains
    "url_ctor e (case headers r ''url'' of None \<Rightarrow> ''https://example.com'' | Some u \<Rightarrow> u) = None"
      "res = Inl TypeError" "s' = s" "evs = []"
  | href where
      "url_ctor e (case headers r ''url'' of None \<Rightarrow> ''https://example.com'' | Some u \<Rightarrow> u)
         = Some href"
      "falsy (headers r ''user-id'')"
      "res = Inr (Response (Text ''User ID not found'') 400)" "s' = s" "evs = []"
  | href uid where
      "url_ctor e (case headers r ''url'' of None \<Rightarrow> ''https://example.com'' | Some u \<Rightarrow> u)
         = Some href"
      "headers r ''user-id'' = Some uid" "uid \<noteq> []"
      "acquire e s = (False, s, evs)"
      "res = Inr (Response (Text ''Failed to start browser'') 500)" "s' = s"
  | href uid s1 ev1 ev2 where
      "url_ctor e (case headers r ''url'' of None \<Rightarrow> ''https://example.com'' | Some u \<Rightarrow> u)
         = Some href"
      "headers r ''user-id'' = Some uid" "uid \<noteq> []"
      "acquire e s = (True, s1, ev1)"
      "page_operations2 e href (''captures/user-'' @ btoa uid) = (ev2, None)"
      "res = Inr (Response (Text ''Error during page operations'') 500)"
      "s' = s1\<lparr>keptAliveInSeconds := 0\<rparr>" "evs = ev1 @ ev2"
  | href uid s1 ev1 ev2 ev3 captureKey where
      "url_ctor e (case headers r ''url'' of None \<Rightarrow> ''https://example.com'' | Some u \<Rightarrow> u)
         = Some href"
      "headers r ''user-id'' = Some uid" "uid \<noteq> []"
      "acquire e s = (True, s1, ev1)"
      "page_operations2 e href (''captures/user-'' @ btoa uid) = (ev2, Some captureKey)"
      "first_alarm e (s1\<lparr>keptAliveInSeconds := 0\<rparr>) = (s', ev3)"
      "res = Inr (json_response [(''sucess'', JBool True),
                 (''captureKey'', JArray (map JString captureKey))] 200)"
      "evs = ev1 @ ev2 @ ev3"
proof (cases "url_ctor e (case headers r ''url'' of None \<Rightarrow> ''https://example.com'' | Some u \<Rightarrow> u)")
  case None
  then have "fetch2 e r s = (Inl TypeError, s, [])"
    by (simp add: fetch2_def Let_def)
  with assms have "res = Inl TypeError" "s' = s" "evs = []"
    by simp_all
  with None show ?thesis by (rule that(1))
next
  case (Some href)
  note href = this
  show ?thesis
  proof (cases "falsy (headers r ''user-id'')")
    case True
    with href have "fetch2 e r s = (Inr (Response (Text ''User ID not found'') 400), s, [])"
      by (cases "headers r ''user-id''") (simp_all add: fetch2_def Let_def)
    with assms have "res = Inr (Response (Text ''User ID not found'') 400)" "s' = s" "evs = []"
      by simp_all
    with href True show ?thesis by (rule that(2))
  next
    case False
    then obtain uid where uid: "headers r ''user-id'' = Some uid" "uid \<noteq> []"
      by (cases "headers r ''user-id''") auto
    note valid = fetch2_valid [OF href uid, of s]
    obtain ok s1 ev1 where acq: "acquire e s = (ok, s1, ev1)"
      by (cases "acquire e s") auto
    show ?thesis
    proof (cases ok)
      case False
      with acq have acq': "acquire e s = (False, s1, ev1)" by simp
      then have s1: "s1 = s" by (simp add: acquire_False)
      from valid acq' have "fetch2 e r s =
          (Inr (Response (Text ''Failed to start browser'') 500), s1, ev1)"
        by simp
      with assms s1 have "res = Inr (Response (Text ''Failed to start browser'') 500)"
          "s' = s" "evs = ev1"
        by simp_all
      with href uid acq' s1 show ?thesis
        using that(3) by simp
    next
      case True
      with acq have acq': "acquire e s = (True, s1, ev1)" by simp
      then obtain b where b: "browser s1 = Some b"
        by (auto dest: acquire_True)
      obtain ev2 keys where pg: "page_operations2 e href (''captures/user-'' @ btoa uid) = (ev2, keys)"
        by (cases "page_operations2 e href (''captures/user-'' @ btoa uid)") auto
      show ?thesis
      proof (cases keys)
        case None
        with pg have pg': "page_operations2 e href (''captures/user-'' @ btoa uid) = (ev2, None)"
          by simp
        from valid acq' b pg' have "fetch2 e r s =
            (Inr (Response (Text ''Error during page operations'') 500),
             s1\<lparr>keptAliveInSeconds := 0\<rparr>, ev1 @ ev2)"
          by simp
        with assms have "res = Inr (Response (Text ''Error during page operations'') 500)"
            "s' = s1\<lparr>keptAliveInSeconds := 0\<rparr>" "evs = ev1 @ ev2"
          by simp_all
        with href uid acq' pg' show ?thesis
          by (rule that(4))
      next
        case (Some captureKey)
        with pg have pg':
          "page_operations2 e href (''captures/user-'' @ btoa uid) = (ev2, Some captureKey)"
          by simp
        obtain s4 ev3 where fa: "first_alarm e (s1\<lparr>keptAliveInSeconds := 0\<rparr>) = (s4, ev3)"
          by (cases "first_alarm e (s1\<lparr>keptAliveInSeconds := 0\<rparr>)") auto
        from valid acq' b pg' fa have "fetch2 e r s =
            (Inr (json_response [(''sucess'', JBool True),
                 (''captureKey'', JArray (map JString captureKey))] 200), s4, ev1 @ ev2 @ ev3)"
          by simp
        with assms have r: "res = Inr (json_response [(''sucess'', JBool True),
                 (''captureKey'', JArray (map JString captureKey))] 200)"
            "s4 = s'" "evs = ev1 @ ev2 @ ev3"
          by simp_all
        from fa r(2) have fa': "first_alarm e (s1\<lparr>keptAliveInSeconds := 0\<rparr>) = (s', ev3)"
          by simp
        from href uid acq' pg' fa' r(1) r(3) show ?thesis
          by (rule that(5))
      qed
    qed
  qed
qed

subsection \<open>The alarm and its delivery\<close>

lemma alarm_below:
  "keptAliveInSeconds s + 10 < KEEP_BROWSER_ALIVE_IN_SECONDS \<Longrightarrow>
     alarm e s =
       (Inr (),
        s\<lparr>keptAliveInSeconds := keptAliveInSeconds s + 10,
          storage := storage s @ [now e + 10 * 1000]\<rparr>,
        [(SetAlarm (now e + 10 * 1000), True)])"
  by (simp add: alarm_def Let_def setAlarm_def)

lemma alarm_threshold:
  "\<not> keptAliveInSeconds s + 10 < KEEP_BROWSER_ALIVE_IN_SECONDS \<Longrightarrow> browser s = Some b \<Longrightarrow>
     alarm e s =
       (if browserClose_ok e
        then (Inr (),
              s\<lparr>keptAliveInSeconds := keptAliveInSeconds s + 10,
                browser := Some (b\<lparr>connected := False\<rparr>)\<rparr>,
              [(BrowserClose, True)])
        else (Inl CloseError, s\<lparr>keptAliveInSeconds := keptAliveInSeconds s + 10\<rparr>,
              [(BrowserClose, False)]))"
  by (simp add: alarm_def Let_def)

lemma alarm_threshold_cold:
  "\<not> keptAliveInSeconds s + 10 < KEEP_BROWSER_ALIVE_IN_SECONDS \<Longrightarrow> browser s = None \<Longrightarrow>
     alarm e s = (Inr (), s\<lparr>keptAliveInSeconds := keptAliveInSeconds s + 10\<rparr>, [])"
  by (simp add: alarm_def Let_def)

lemma alarm_storage:
  "alarm e s = (res, s', evs) \<Longrightarrow> length (storage s') \<le> Suc (length (storage s))"
  by (auto simp: alarm_def Let_def setAlarm_def split: if_splits option.splits)

lemma deliver_nothing: "storage s = [] \<Longrightarrow> deliver e s = (s, [])"
  by (simp add: deliver_def)

lemma alarm_rejects:
  "alarm e s = (Inl x, s', evs) \<Longrightarrow>
     s' = s\<lparr>keptAliveInSeconds := keptAliveInSeconds s + 10\<rparr> \<and> evs = [(BrowserClose, False)]
     \<and> x = CloseError \<and> browser s \<noteq> None
     \<and> \<not> keptAliveInSeconds s + 10 < KEEP_BROWSER_ALIVE_IN_SECONDS"
  by (auto simp: alarm_def Let_def split: if_splits option.splits)

lemma deliver_pending:
  "storage s = [t] \<Longrightarrow>
     deliver e s =
       (case alarm e (s\<lparr>storage := []\<rparr>) of
          (Inr u, s', evs) \<Rightarrow> (s', evs)
        | (Inl x, s', evs) \<Rightarrow> (s'\<lparr>storage := [t]\<rparr>, evs))"
  by (auto simp: deliver_def split: prod.splits sum.splits dest: alarm_rejects)

lemma deliver_storage:
  assumes "length (storage s) \<le> 1" and "deliver e s = (s', evs)"
  shows "length (storage s') \<le> 1"
proof (cases "storage s")
  case Nil
  with assms(2) show ?thesis by (simp add: deliver_def)
next
  case (Cons t ts)
  with assms(1) have st: "storage s = [t]" by simp
  obtain res s1 ev1 where al: "alarm e (s\<lparr>storage := []\<rparr>) = (res, s1, ev1)"
    by (cases "alarm e (s\<lparr>storage := []\<rparr>)") auto
  show ?thesis
  proof (cases res)
    case (Inl x)
    with al assms(2) st show ?thesis
      by (auto simp: deliver_pending)
  next
    case (Inr u)
    with al assms(2) st have "s' = s1" by (simp add: deliver_pending)
    with alarm_storage [OF al] show ?thesis by simp
  qed
qed

lemma deliver_handle:
  "deliver e s = (s', evs) \<Longrightarrow>
     (Launch, True) \<notin> set evs
     \<and> (if (BrowserClose, True) \<in> set evs
        then evs = [(BrowserClose, True)]
          \<and> (\<exists>b. browser s = Some b \<and> browser s' = Some (b\<lparr>connected := False\<rparr>))
        else browser s' = browser s)"
  by (auto simp: deliver_def alarm_def Let_def split: list.splits if_splits option.splits)

lemma run_ticks_nothing: "storage s = [] \<Longrightarrow> run (ticks es) (s, tr) = (s, tr)"
  by (induction es) (simp_all add: ticks_def deliver_nothing)

lemma run_append: "run (xs @ ys) st = run ys (run xs st)"
  by (induction xs st rule: run.induct) (auto split: prod.splits)

text \<open>
  A countdown has two phases: ticks that leave the counter below the threshold, and
  ticks that find it at the threshold, each of which calls \<open>close()\<close> until one call
  resolves.
\<close>

lemma ticks_below:
  assumes "storage s = [t]"
    and "es \<noteq> [] \<longrightarrow>
           keptAliveInSeconds s + 10 * int (length es) < KEEP_BROWSER_ALIVE_IN_SECONDS"
    and "run (ticks es) (s, tr) = (s', tr')"
  shows "keptAliveInSeconds s' = keptAliveInSeconds s + 10 * int (length es)
     \<and> browser s' = browser s
     \<and> browser_closes tr' = browser_closes tr
     \<and> alarms_set tr' = alarms_set tr + length es
     \<and> length (storage s') = 1"
  using assms
proof (induction es arbitrary: s t tr)
  case Nil
  then show ?case by (simp add: ticks_def)
next
  case (Cons e es)
  from Cons.prems(2) have below:
    "keptAliveInSeconds (s\<lparr>storage := []\<rparr>) + 10 < KEEP_BROWSER_ALIVE_IN_SECONDS"
    by simp
  let ?s1 = "s\<lparr>keptAliveInSeconds := keptAliveInSeconds s + 10, storage := [now e + 10 * 1000]\<rparr>"
  let ?ev = "[(SetAlarm (now e + 10 * 1000), True)]"
  from alarm_below [OF below, of e] Cons.prems(1) have "deliver e s = (?s1, ?ev)"
    by (simp add: deliver_pending)
  then have "run (ticks (e # es)) (s, tr) = run (ticks es) (?s1, tr @ ?ev)"
    by (simp add: ticks_def)
  with Cons.prems(3) have run': "run (ticks es) (?s1, tr @ ?ev) = (s', tr')"
    by simp
  have st: "storage ?s1 = [now e + 10 * 1000]"
    by simp
  have lt: "es \<noteq> [] \<longrightarrow>
      keptAliveInSeconds ?s1 + 10 * int (length es) < KEEP_BROWSER_ALIVE_IN_SECONDS"
    using Cons.prems(2) by simp
  have ev: "browser_closes ?ev = 0" "alarms_set ?ev = 1"
    by (simp_all add: browser_closes_def alarms_set_def)
  from Cons.IH [OF st lt run'] ev show ?case
    by (simp add: browser_closes_append alarms_set_append)
qed

lemma ticks_teardown:
  assumes "browser s = Some b" and "storage s = [t]"
    and "KEEP_BROWSER_ALIVE_IN_SECONDS \<le> keptAliveInSeconds s + 10"
    and "run (ticks es) (s, tr) = (s', tr')"
    and "rej = length (takeWhile (\<lambda>e. \<not> browserClose_ok e) es)"
  shows "browser_closes tr' = browser_closes tr + min (length es) (rej + 1)
     \<and> keptAliveInSeconds s' = keptAliveInSeconds s + 10 * int (min (length es) (rej + 1))
     \<and> alarms_set tr' = alarms_set tr
     \<and> (rej < length es \<longrightarrow> storage s' = [] \<and> browser s' = Some (b\<lparr>connected := False\<rparr>))
     \<and> (rej = length es \<longrightarrow> storage s' = [t] \<and> browser s' = Some b)"
  using assms
proof (induction es arbitrary: s tr rej)
  case Nil
  then show ?case by (simp add: ticks_def)
next
  case (Cons e es)
  let ?s0 = "s\<lparr>storage := []\<rparr>"
  from Cons.prems(1,3) have thr: "\<not> keptAliveInSeconds ?s0 + 10 < KEEP_BROWSER_ALIVE_IN_SECONDS"
    and b0: "browser ?s0 = Some b"
    by simp_all
  note al = alarm_threshold [OF thr b0, of e]
  show ?case
  proof (cases "browserClose_ok e")
    case True
    let ?s1 = "s\<lparr>storage := [], keptAliveInSeconds := keptAliveInSeconds s + 10,
      browser := Some (b\<lparr>connected := False\<rparr>)\<rparr>"
    from al True Cons.prems(2) have "deliver e s = (?s1, [(BrowserClose, True)])"
      by (simp add: deliver_pending)
    then have "run (ticks (e # es)) (s, tr) = run (ticks es) (?s1, tr @ [(BrowserClose, True)])"
      by (simp add: ticks_def)
    with Cons.prems(4) have "s' = ?s1" "tr' = tr @ [(BrowserClose, True)]"
      by (simp_all add: run_ticks_nothing)
    moreover from True Cons.prems(5) have "rej = 0" by simp
    ultimately show ?thesis
      by (simp add: browser_closes_append alarms_set_append browser_closes_def alarms_set_def)
  next
    case False
    let ?s1 = "s\<lparr>storage := [t], keptAliveInSeconds := keptAliveInSeconds s + 10\<rparr>"
    from al False Cons.prems(2) have "deliver e s = (?s1, [(BrowserClose, False)])"
      by (simp add: deliver_pending)
    then have "run (ticks (e # es)) (s, tr) = run (ticks es) (?s1, tr @ [(BrowserClose, False)])"
      by (simp add: ticks_def)
    with Cons.prems(4) have run': "run (ticks es) (?s1, tr @ [(BrowserClose, False)]) = (s', tr')"
      by simp
    define rej' where "rej' = length (takeWhile (\<lambda>e. \<not> browserClose_ok e) es)"
    with False Cons.prems(5) have rej: "rej = Suc rej'" by simp
    have 1: "browser ?s1 = Some b" "storage ?s1 = [t]"
        "KEEP_BROWSER_ALIVE_IN_SECONDS \<le> keptAliveInSeconds ?s1 + 10"
      using Cons.prems(1,3) by simp_all
    from Cons.IH [OF 1 run' rej'_def] rej show ?thesis
      by (simp add: browser_closes_append alarms_set_append browser_closes_def alarms_set_def)
  qed
qed

lemma below_count:
  "0 < n \<Longrightarrow> n \<le> nat ((KEEP_BROWSER_ALIVE_IN_SECONDS - 1 - c) div 10) \<Longrightarrow>
     c + 10 * int n < KEEP_BROWSER_ALIVE_IN_SECONDS"
  unfolding KEEP_BROWSER_ALIVE_IN_SECONDS_def by linarith

lemma threshold_count:
  "KEEP_BROWSER_ALIVE_IN_SECONDS
     \<le> c + 10 * int (nat ((KEEP_BROWSER_ALIVE_IN_SECONDS - 1 - c) div 10)) + 10"
  unfolding KEEP_BROWSER_ALIVE_IN_SECONDS_def by linarith

lemma run_ticks_split:
  "run (ticks es) st = run (ticks (drop m es)) (run (ticks (take m es)) st)"
proof -
  have "ticks es = ticks (take m es) @ ticks (drop m es)"
    by (simp add: ticks_def flip: map_append)
  then show ?thesis by (simp add: run_append)
qed

subsection \<open>Captures and the state\<close>

lemma fetch_live:
  assumes "browser s = Some b" and "connected b"
    and "\<not> url_missing r" and "\<not> url_malformed e r" and "\<not> user_missing r"
    and "fetch e r s = (res, s', evs)"
  shows "keptAliveInSeconds s' = 0 \<and> browser s' = Some b
     \<and> browser_closes evs = 0 \<and> launches evs = 0"
  using assms(6)
proof (cases rule: fetch_cases)
  case missing_url
  with assms(3) show ?thesis by (simp add: url_missing_def)
next
  case (bad_url u)
  with assms(4) show ?thesis by (simp add: url_malformed_def)
next
  case (missing_user u href)
  with assms(5) show ?thesis by (simp add: user_missing_def)
next
  case (launch_failed u href uid)
  with acquire_connected [OF assms(1,2), of e] show ?thesis by simp
next
  case (page_failed u href uid s1 ev1 ev2)
  from page_failed(6) acquire_connected [OF assms(1,2), of e]
  have "s1 = s" "ev1 = [(IsConnected, True)]" by simp_all
  with page_failed(9,10) page_operations_no_browser [OF page_failed(7)] assms(1) show ?thesis
    by (simp add: browser_closes_append launches_append browser_closes_def launches_def)
next
  case (success u href uid s1 ev1 ev2 ev3)
  from success(6) acquire_connected [OF assms(1,2), of e]
  have "s1 = s" "ev1 = [(IsConnected, True)]" by simp_all
  with success(10) page_operations_no_browser [OF success(7)]
    first_alarm_no_browser [OF success(8)] first_alarm_effect [OF success(8)] assms(1)
  show ?thesis
    by (simp add: browser_closes_append launches_append browser_closes_def launches_def)
qed

lemma fetch_storage:
  assumes "fetch e r s = (res, s', evs)"
  shows "(storage s = [] \<longrightarrow> length (storage s') \<le> 1 \<and> alarms_set evs \<le> 1)
     \<and> (storage s \<noteq> [] \<longrightarrow> storage s' = storage s \<and> alarms_set evs = 0)"
  using assms
proof (cases rule: fetch_cases)
  case (launch_failed u href uid)
  then show ?thesis by (auto dest: acquire_no_alarm)
next
  case (page_failed u href uid s1 ev1 ev2)
  with acquire_keeps [OF page_failed(6)] acquire_no_alarm [OF page_failed(6)]
    page_operations_no_alarm [OF page_failed(7)]
  show ?thesis by (simp add: alarms_set_append)
next
  case (success u href uid s1 ev1 ev2 ev3)
  with acquire_keeps [OF success(6)] acquire_no_alarm [OF success(6)]
    page_operations_no_alarm [OF success(7)] first_alarm_storage [OF success(8)]
  show ?thesis by (simp add: alarms_set_append)
qed (simp_all add: alarms_set_def)

lemma fetch2_storage:
  assumes "fetch2 e r s = (res, s', evs)"
  shows "(storage s = [] \<longrightarrow> length (storage s') \<le> 1 \<and> alarms_set evs \<le> 1)
     \<and> (storage s \<noteq> [] \<longrightarrow> storage s' = storage s \<and> alarms_set evs = 0)"
  using assms
proof (cases rule: fetch2_cases)
  case (launch_failed href uid)
  then show ?thesis by (auto dest: acquire_no_alarm)
next
  case (page_failed href uid s1 ev1 ev2)
  with acquire_keeps [OF page_failed(4)] acquire_no_alarm [OF page_failed(4)]
    page_operations2_no_alarm [OF page_failed(5)]
  show ?thesis by (simp add: alarms_set_append)
next
  case (success href uid s1 ev1 ev2 ev3 captureKey)
  with acquire_keeps [OF success(4)] acquire_no_alarm [OF success(4)]
    page_operations2_no_alarm [OF success(5)] first_alarm_storage [OF success(6)]
  show ?thesis by (simp add: alarms_set_append)
qed (simp_all add: alarms_set_def)

lemma fetch_handle:
  assumes "fetch e r s = (res, s', evs)"
  shows "(BrowserClose, True) \<notin> set evs
     \<and> (if (Launch, True) \<in> set evs
        then (\<exists>i. browser s' = Some \<lparr>ident = i, connected = True\<rparr>) \<and> (Launch, False) \<notin> set evs
        else browser s' = browser s)"
  using assms
proof (cases rule: fetch_cases)
  case (launch_failed u href uid)
  with acquire_handle [OF launch_failed(6)] show ?thesis by auto
next
  case (page_failed u href uid s1 ev1 ev2)
  with acquire_handle [OF page_failed(6)] page_operations_handle [OF page_failed(7)]
  show ?thesis by auto
next
  case (success u href uid s1 ev1 ev2 ev3)
  with acquire_handle [OF success(6)] page_operations_handle [OF success(7)]
    first_alarm_handle [OF success(8)]
  show ?thesis by auto
qed simp_all

lemma fetch2_handle:
  assumes "fetch2 e r s = (res, s', evs)"
  shows "(BrowserClose, True) \<notin> set evs
     \<and> (if (Launch, True) \<in> set evs
        then (\<exists>i. browser s' = Some \<lparr>ident = i, connected = True\<rparr>) \<and> (Launch, False) \<notin> set evs
        else browser s' = browser s)"
  using assms
proof (cases rule: fetch2_cases)
  case (launch_failed href uid)
  with acquire_handle [OF launch_failed(4)] show ?thesis by auto
next
  case (page_failed href uid s1 ev1 ev2)
  with acquire_handle [OF page_failed(4)] page_operations2_handle [OF page_failed(5)]
  show ?thesis by auto
next
  case (success href uid s1 ev1 ev2 ev3 captureKey)
  with acquire_handle [OF success(4)] page_operations2_handle [OF success(5)]
    first_alarm_handle [OF success(6)]
  show ?thesis by auto
qed simp_all

lemma step_storage:
  assumes "length (storage s) \<le> 1" and "step a s = (s', evs)"
  shows "length (storage s') \<le> 1"
proof (cases a)
  case (Pair e act)
  show ?thesis
  proof (cases act)
    case (Capture r)
    with Pair assms(2) obtain res where "fetch e r s = (res, s', evs)"
      by (auto split: prod.splits)
    from fetch_storage [OF this] assms(1) show ?thesis
      by (cases "storage s = []") auto
  next
    case (Capture2 r)
    with Pair assms(2) obtain res where "fetch2 e r s = (res, s', evs)"
      by (auto split: prod.splits)
    from fetch2_storage [OF this] assms(1) show ?thesis
      by (cases "storage s = []") auto
  next
    case Tick
    with Pair assms(2) have "deliver e s = (s', evs)" by simp
    with assms(1) show ?thesis by (rule deliver_storage)
  next
    case Disconnect
    with Pair assms(2) have "s' = disconnect s" by simp
    with assms(1) show ?thesis
      by (simp add: disconnect_def split: option.splits)
  qed
qed

lemma run_storage:
  "length (storage s) \<le> 1 \<Longrightarrow> run script (s, tr) = (s', tr') \<Longrightarrow> length (storage s') \<le> 1"
proof (induction script arbitrary: s tr)
  case Nil
  then show ?case by simp
next
  case (Cons a script)
  obtain s1 evs where st: "step a s = (s1, evs)"
    by (cases "step a s") auto
  with Cons.prems(2) have "run script (s1, tr @ evs) = (s', tr')"
    by simp
  moreover from Cons.prems(1) st have "length (storage s1) \<le> 1"
    by (rule step_storage)
  ultimately show ?case
    using Cons.IH by blast
qed

subsection \<open>The handle along a run\<close>

lemma spec_handle_live_append:
  "spec_handle_live (tr @ evs) = foldl handle_step (spec_handle_live tr) evs"
  by (simp add: spec_handle_live_def)

lemma launched_append: "launched (tr @ evs) = (launched tr \<or> (Launch, True) \<in> set evs)"
  by (auto simp: launched_def)

lemma handle_fold_no_close:
  "(BrowserClose, True) \<notin> set evs \<Longrightarrow>
     foldl handle_step l evs = (l \<or> (Launch, True) \<in> set evs)"
  by (induction evs arbitrary: l) (auto simp: handle_step_def)

lemma usable_not_None: "usable s \<Longrightarrow> browser s \<noteq> None"
  by (cases "browser s") (simp_all add: usable_def)

lemma launch_effect:
  assumes "(BrowserClose, True) \<notin> set evs"
    and "if (Launch, True) \<in> set evs
        then (\<exists>i. browser s' = Some \<lparr>ident = i, connected = True\<rparr>) \<and> (Launch, False) \<notin> set evs
        else browser s' = browser s"
  shows "((BrowserClose, True) \<notin> set evs \<and> (Launch, True) \<in> set evs
          \<and> browser s' \<noteq> None \<and> usable s')
     \<or> ((BrowserClose, True) \<notin> set evs \<and> (Launch, True) \<notin> set evs
          \<and> (browser s' = browser s
              \<or> snd a = Disconnect \<and> browser s \<noteq> None \<and> browser s' \<noteq> None \<and> \<not> usable s'))
     \<or> (evs = [(BrowserClose, True)] \<and> browser s \<noteq> None \<and> browser s' \<noteq> None \<and> \<not> usable s')"
proof (cases "(Launch, True) \<in> set evs")
  case True
  with assms(2) obtain i where "browser s' = Some \<lparr>ident = i, connected = True\<rparr>"
    by auto
  then have "browser s' \<noteq> None" "usable s'"
    by (simp_all add: usable_def)
  with assms(1) True show ?thesis by simp
next
  case False
  with assms(2) have "browser s' = browser s" by simp
  with assms(1) False show ?thesis by simp
qed

lemma step_handle:
  assumes "step a s = (s', evs)"
  shows "((BrowserClose, True) \<notin> set evs \<and> (Launch, True) \<in> set evs
          \<and> browser s' \<noteq> None \<and> usable s')
     \<or> ((BrowserClose, True) \<notin> set evs \<and> (Launch, True) \<notin> set evs
          \<and> (browser s' = browser s
              \<or> snd a = Disconnect \<and> browser s \<noteq> None \<and> browser s' \<noteq> None \<and> \<not> usable s'))
     \<or> (evs = [(BrowserClose, True)] \<and> browser s \<noteq> None \<and> browser s' \<noteq> None \<and> \<not> usable s')"
proof (cases a)
  case (Pair e act)
  show ?thesis
  proof (cases act)
    case (Capture r)
    with Pair assms obtain res where "fetch e r s = (res, s', evs)"
      by (auto split: prod.splits)
    from fetch_handle [OF this] show ?thesis
      by (intro launch_effect) simp_all
  next
    case (Capture2 r)
    with Pair assms obtain res where "fetch2 e r s = (res, s', evs)"
      by (auto split: prod.splits)
    from fetch2_handle [OF this] show ?thesis
      by (intro launch_effect) simp_all
  next
    case Tick
    with Pair assms have "deliver e s = (s', evs)" by simp
    note d = deliver_handle [OF this]
    show ?thesis
    proof (cases "(BrowserClose, True) \<in> set evs")
      case True
      with d obtain b where "evs = [(BrowserClose, True)]" "browser s = Some b"
          "browser s' = Some (b\<lparr>connected := False\<rparr>)"
        by auto
      then have "evs = [(BrowserClose, True)] \<and> browser s \<noteq> None \<and> browser s' \<noteq> None
          \<and> \<not> usable s'"
        by (simp add: usable_def)
      then show ?thesis by simp
    next
      case False
      with d have "(BrowserClose, True) \<notin> set evs \<and> (Launch, True) \<notin> set evs
          \<and> browser s' = browser s"
        by simp
      then show ?thesis by simp
    qed
  next
    case Disconnect
    with Pair assms have s': "s' = disconnect s" and evs: "evs = []" by simp_all
    show ?thesis
    proof (cases "browser s")
      case None
      with s' have "browser s' = browser s" by (simp add: disconnect_def)
      with evs show ?thesis by simp
    next
      case (Some b)
      with s' have "browser s \<noteq> None" "browser s' \<noteq> None" "\<not> usable s'"
        by (simp_all add: disconnect_def usable_def)
      with evs Pair Disconnect show ?thesis by simp
    qed
  qed
qed

lemma step_handle_inv:
  assumes "(browser s \<noteq> None) = launched tr" and "usable s \<longrightarrow> spec_handle_live tr"
    and "step a s = (s', evs)"
  shows "(browser s' \<noteq> None) = launched (tr @ evs)
     \<and> (usable s' \<longrightarrow> spec_handle_live (tr @ evs))"
  using step_handle [OF assms(3)]
proof (elim disjE conjE)
  assume "(BrowserClose, True) \<notin> set evs" "(Launch, True) \<in> set evs"
    "browser s' \<noteq> None" "usable s'"
  then show ?thesis
    by (simp add: launched_append spec_handle_live_append handle_fold_no_close)
next
  assume q: "(BrowserClose, True) \<notin> set evs" "(Launch, True) \<notin> set evs"
    and same: "browser s' = browser s"
  then have "usable s' = usable s" by (simp add: usable_def)
  with q same assms(1,2) show ?thesis
    by (simp add: launched_append spec_handle_live_append handle_fold_no_close)
next
  assume q: "(BrowserClose, True) \<notin> set evs" "(Launch, True) \<notin> set evs"
    and "snd a = Disconnect" "browser s \<noteq> None" "browser s' \<noteq> None" "\<not> usable s'"
  with assms(1) show ?thesis
    by (simp add: launched_append)
next
  assume "evs = [(BrowserClose, True)]" "browser s \<noteq> None" "browser s' \<noteq> None" "\<not> usable s'"
  with assms(1) show ?thesis
    by (simp add: launched_append)
qed

lemma step_handle_conv:
  assumes "spec_handle_live tr \<longrightarrow> usable s" and "snd a \<noteq> Disconnect"
    and "step a s = (s', evs)"
  shows "spec_handle_live (tr @ evs) \<longrightarrow> usable s'"
  using step_handle [OF assms(3)]
proof (elim disjE conjE)
  assume "(BrowserClose, True) \<notin> set evs" "(Launch, True) \<in> set evs"
    "browser s' \<noteq> None" "usable s'"
  then show ?thesis by simp
next
  assume q: "(BrowserClose, True) \<notin> set evs" "(Launch, True) \<notin> set evs"
    and same: "browser s' = browser s"
  then have "usable s' = usable s" by (simp add: usable_def)
  with q assms(1) show ?thesis
    by (simp add: spec_handle_live_append handle_fold_no_close)
next
  assume "snd a = Disconnect"
  with assms(2) show ?thesis by simp
next
  assume "evs = [(BrowserClose, True)]"
  then show ?thesis
    by (simp add: spec_handle_live_append handle_step_def)
qed

lemma run_handle_inv:
  assumes "(browser s \<noteq> None) = launched tr" and "usable s \<longrightarrow> spec_handle_live tr"
    and "run script (s, tr) = (s', tr')"
  shows "(browser s' \<noteq> None) = launched tr' \<and> (usable s' \<longrightarrow> spec_handle_live tr')"
  using assms
proof (induction script arbitrary: s tr)
  case Nil
  then show ?case by simp
next
  case (Cons a script)
  obtain s1 evs where st: "step a s = (s1, evs)"
    by (cases "step a s") auto
  with Cons.prems(3) have r: "run script (s1, tr @ evs) = (s', tr')"
    by simp
  from step_handle_inv [OF Cons.prems(1,2) st]
  have "(browser s1 \<noteq> None) = launched (tr @ evs)" "usable s1 \<longrightarrow> spec_handle_live (tr @ evs)"
    by simp_all
  from Cons.IH [OF this r] show ?case .
qed

lemma run_handle_conv:
  assumes "spec_handle_live tr \<longrightarrow> usable s" and "Disconnect \<notin> snd ` set script"
    and "run script (s, tr) = (s', tr')"
  shows "spec_handle_live tr' \<longrightarrow> usable s'"
  using assms
proof (induction script arbitrary: s tr)
  case Nil
  then show ?case by simp
next
  case (Cons a script)
  obtain s1 evs where st: "step a s = (s1, evs)"
    by (cases "step a s") auto
  with Cons.prems(3) have r: "run script (s1, tr @ evs) = (s', tr')"
    by simp
  from Cons.prems(2) have nd: "snd a \<noteq> Disconnect" "Disconnect \<notin> snd ` set script"
    by auto
  from step_handle_conv [OF Cons.prems(1) nd(1) st]
  have "spec_handle_live (tr @ evs) \<longrightarrow> usable s1" .
  from Cons.IH [OF this nd(2) r] show ?case .
qed

subsection \<open>The concrete inputs, evaluated\<close>

lemma fetch_env_ok_cold:
  "fetch env_ok (capture_request ''https://example.com'' ''user_42'') constructor =
     (Inr (json_response [(''success'', JBool True), (''key'', JString ''O123456'')] 200),
      \<lparr>browser = Some \<lparr>ident = 1, connected = True\<rparr>, keptAliveInSeconds = 0,
        storage = [15000]\<rparr>,
      [(Launch, True), (NewPage, True), (SetViewport 1920 1080, True),
       (Goto ''https://example.com/'', True), (Screenshot ''O123456.jpg'' False, True),
       (Put ''captures/user-dXNlcl80Mg==/O123456.jpg'', True), (PageClose, True),
       (GetAlarm, True), (SetAlarm 15000, True)])"
  by (simp add: fetch_def Let_def env_ok_def capture_request_def constructor_def
      acquire_def page_operations_unfold first_alarm_def getAlarm_def setAlarm_def
      generateId_def customAlphabet_def id_alphabet_def upt_rec
      btoa_def b64_digit_def b64_alphabet_def)

lemma fetch_env_ok_warm:
  "fetch env_ok (capture_request ''https://example.com'' ''user_42'')
      \<lparr>browser = Some \<lparr>ident = i, connected = True\<rparr>, keptAliveInSeconds = k, storage = [t]\<rparr> =
     (Inr (json_response [(''success'', JBool True), (''key'', JString ''O123456'')] 200),
      \<lparr>browser = Some \<lparr>ident = i, connected = True\<rparr>, keptAliveInSeconds = 0, storage = [t]\<rparr>,
      [(IsConnected, True), (NewPage, True), (SetViewport 1920 1080, True),
       (Goto ''https://example.com/'', True), (Screenshot ''O123456.jpg'' False, True),
       (Put ''captures/user-dXNlcl80Mg==/O123456.jpg'', True), (PageClose, True),
       (GetAlarm, True)])"
  by (simp add: fetch_def Let_def env_ok_def capture_request_def
      acquire_def page_operations_unfold first_alarm_def getAlarm_def
      generateId_def customAlphabet_def id_alphabet_def upt_rec
      btoa_def b64_digit_def b64_alphabet_def)

lemma fetch2_env_ok_warm:
  "fetch2 env_ok (capture_request ''https://example.com'' ''user_42'')
      \<lparr>browser = Some \<lparr>ident = i, connected = True\<rparr>, keptAliveInSeconds = k, storage = [t]\<rparr> =
     (Inr (json_response [(''sucess'', JBool True),
        (''captureKey'',
         JArray [JString ''captures/user-dXNlcl80Mg==/https://example.com/_1920x1080.jpg''])] 200),
      \<lparr>browser = Some \<lparr>ident = i, connected = True\<rparr>, keptAliveInSeconds = 0, storage = [t]\<rparr>,
      [(IsConnected, True), (NewPage, True), (SetViewport 1920 1080, True),
       (Goto ''https://example.com/'', True),
       (Screenshot ''https://example.com/_1920x1080.jpg'' False, True),
       (Put ''captures/user-dXNlcl80Mg==/https://example.com/_1920x1080.jpg'', True),
       (PageClose, True), (GetAlarm, True)])"
  by (simp add: fetch2_def Let_def env_ok_def capture_request_def
      acquire_def page_operations2_unfold first_alarm_def getAlarm_def
      btoa_def b64_digit_def b64_alphabet_def)

lemma deliver_env_ok_below:
  "k < 50 \<Longrightarrow>
   deliver env_ok \<lparr>browser = b, keptAliveInSeconds = k, storage = [t]\<rparr> =
     (\<lparr>browser = b, keptAliveInSeconds = k + 10, storage = [15000]\<rparr>, [(SetAlarm 15000, True)])"
  by (simp add: deliver_def alarm_def Let_def setAlarm_def env_ok_def
      KEEP_BROWSER_ALIVE_IN_SECONDS_def)

lemma deliver_env_ok_threshold:
  "deliver env_ok \<lparr>browser = Some b, keptAliveInSeconds = 50, storage = [t]\<rparr> =
     (\<lparr>browser = Some (b\<lparr>connected := False\<rparr>), keptAliveInSeconds = 60, storage = []\<rparr>,
      [(BrowserClose, True)])"
  by (simp add: deliver_def alarm_def Let_def env_ok_def KEEP_BROWSER_ALIVE_IN_SECONDS_def)

lemma deliver_env_ok_rejecting:
  "deliver (env_ok\<lparr>browserClose_ok := False\<rparr>)
      \<lparr>browser = Some b, keptAliveInSeconds = 50, storage = [t]\<rparr> =
     (\<lparr>browser = Some b, keptAliveInSeconds = 60, storage = [t]\<rparr>, [(BrowserClose, False)])"
  by (simp add: deliver_def alarm_def Let_def env_ok_def KEEP_BROWSER_ALIVE_IN_SECONDS_def)

lemma deliver_env_ok_retry:
  "deliver env_ok \<lparr>browser = Some b, keptAliveInSeconds = 60, storage = [t]\<rparr> =
     (\<lparr>browser = Some (b\<lparr>connected := False\<rparr>), keptAliveInSeconds = 70, storage = []\<rparr>,
      [(BrowserClose, True)])"
  by (simp add: deliver_def alarm_def Let_def env_ok_def KEEP_BROWSER_ALIVE_IN_SECONDS_def)

lemma run_idle_script:
  "run idle_script (constructor, []) =
     (\<lparr>browser = Some \<lparr>ident = 1, connected = False\<rparr>, keptAliveInSeconds = 60, storage = []\<rparr>,
      [(Launch, True), (NewPage, True), (SetViewport 1920 1080, True),
       (Goto ''https://example.com/'', True), (Screenshot ''O123456.jpg'' False, True),
       (Put ''captures/user-dXNlcl80Mg==/O123456.jpg'', True), (PageClose, True),
       (GetAlarm, True), (SetAlarm 15000, True),
       (SetAlarm 15000, True), (SetAlarm 15000, True), (SetAlarm 15000, True),
       (SetAlarm 15000, True), (SetAlarm 15000, True), (BrowserClose, True)])"
  by (simp add: idle_script_def fetch_env_ok_cold deliver_env_ok_below deliver_env_ok_threshold)

lemma run_busy_script:
  "\<exists>tr. run busy_script (constructor, []) = (warm_session, tr) \<and> alarms_set tr = 2"
  by (simp add: busy_script_def warm_session_def fetch_env_ok_cold fetch_env_ok_warm
      fetch2_env_ok_warm deliver_env_ok_below alarms_set_def)

section \<open>The claims\<close>

subsection \<open>C1: release of the page context\<close>

text \<open>
  What the code does in general: a capture opens at most one page, and \<open>page.close()\<close> is
  called exactly when every page call before it resolved. Once one of them rejects, the
  catch block answers 500 and the page stays open.
\<close>

lemma fetch_page_closes:
  assumes "fetch e r s = (res, s', evs)"
  shows "pages_opened evs \<le> 1 \<and>
     page_closes evs =
       (if pages_opened evs = 1 \<and> setViewport_ok e 0 \<and> goto_ok e 0 \<and> screenshot_ok e 0
           \<and> put_ok e 0 then 1 else 0)"
  using assms
proof (cases rule: fetch_cases)
  case (launch_failed u href uid)
  then show ?thesis
    by (auto dest: acquire_no_page)
next
  case (page_failed u href uid s1 ev1 ev2)
  from page_failed(6) have "pages_opened ev1 = 0 \<and> page_closes ev1 = 0"
    by (rule acquire_no_page)
  with page_operations_closes [OF page_failed(7)] page_failed(10) show ?thesis
    by (simp add: pages_opened_append page_closes_append)
next
  case (success u href uid s1 ev1 ev2 ev3)
  from success(6) have "pages_opened ev1 = 0 \<and> page_closes ev1 = 0"
    by (rule acquire_no_page)
  moreover from success(8) have "pages_opened ev3 = 0 \<and> page_closes ev3 = 0"
    by (rule first_alarm_no_page)
  ultimately show ?thesis
    using page_operations_closes [OF success(7)] success(10)
    by (simp add: pages_opened_append page_closes_append)
qed (simp_all add: pages_opened_def page_closes_def)

text \<open>
  Claim C1: the page opened by a capture is closed exactly once before the call returns,
  on the success path and on every failure path. The code at a navigation failure: with
  \<open>page.goto\<close> rejecting, both versions of \<open>fetch\<close> open one page, answer 500 and never
  call \<open>page.close()\<close>.
\<close>

theorem C1_page_left_open:
  "(case fetch (env_ok\<lparr>goto_ok := (\<lambda>i. False)\<rparr>)
           (capture_request ''https://example.com'' ''user_42'') constructor of
      (res, s, evs) \<Rightarrow>
        res = Inr (json_response [(''success'', JBool False),
                 (''error'', JString ''Error during page operations'')] 500)
        \<and> pages_opened evs = 1 \<and> page_closes evs = 0)
   \<and>
   (case fetch2 (env_ok\<lparr>goto_ok := (\<lambda>i. False)\<rparr>)
           (capture_request ''https://example.com'' ''user_42'') constructor of
      (res, s, evs) \<Rightarrow>
        res = Inr (Response (Text ''Error during page operations'') 500)
        \<and> pages_opened evs = 1 \<and> page_closes evs = 0)"
  by (simp add: fetch_def fetch2_def Let_def env_ok_def capture_request_def constructor_def
      acquire_def page_operations_unfold page_operations2_unfold pages_opened_def page_closes_def)

subsection \<open>C2: requests turned away before the browser\<close>

text \<open>
  Claim C2 as stated fails: a url header that is not a URL does not give a 400 response,
  the URL constructor throws out of \<open>fetch\<close>.
\<close>

theorem C2_malformed_url_throws:
  "fst (fetch env_ok (capture_request ''not-a-url'' ''user_42'') constructor) = Inl TypeError
   \<and> \<not> (\<exists>resp. fst (fetch env_ok (capture_request ''not-a-url'' ''user_42'') constructor) = Inr resp
        \<and> status resp = 400)"
  by (simp add: fetch_def Let_def env_ok_def capture_request_def)

text \<open>
  Claim C2, amended: a request whose url header is absent or empty, whose url header does
  not parse, or whose user-id header is absent or empty, leaves the session as it was and
  makes no external call at all. The answer is the 400 payload for a missing URL or user
  id, and the TypeError of the URL constructor for a url that does not parse. The
  second version replaces an absent url header by \<open>https://example.com\<close>, so only the
  user id (400, as plain text) and an unparsable url (TypeError) turn a request away
  there.
\<close>

theorem C2_rejected_before_browser:
  "(url_missing r \<or> url_malformed e r \<or> user_missing r \<longrightarrow>
      fetch e r s =
        (if url_missing r then Inr missing_url_response
         else if url_malformed e r then Inl TypeError
         else Inr missing_user_response, s, []))
   \<and>
   (url2_malformed e r \<or> user_missing r \<longrightarrow>
      fetch2 e r s =
        (if url2_malformed e r then Inl TypeError
         else Inr (Response (Text ''User ID not found'') 400), s, []))"
proof -
  obtain res s' evs where f: "fetch e r s = (res, s', evs)"
    by (cases "fetch e r s") auto
  obtain res2 s2 evs2 where f2: "fetch2 e r s = (res2, s2, evs2)"
    by (cases "fetch2 e r s") auto
  have "url_missing r \<or> url_malformed e r \<or> user_missing r \<Longrightarrow>
      (res, s', evs) =
        (if url_missing r then Inr missing_url_response
         else if url_malformed e r then Inl TypeError
         else Inr missing_user_response, s, [])"
    using f
    by (cases rule: fetch_cases)
      (auto simp: url_missing_def url_malformed_def user_missing_def
        missing_url_response_def missing_user_response_def)
  moreover have "url2_malformed e r \<or> user_missing r \<Longrightarrow>
      (res2, s2, evs2) =
        (if url2_malformed e r then Inl TypeError
         else Inr (Response (Text ''User ID not found'') 400), s, [])"
    using f2
    by (cases rule: fetch2_cases) (auto simp: url2_malformed_def user_missing_def)
  ultimately show ?thesis
    using f f2 by simp
qed

theorem C2_rejected_before_browser_witness:
  "url_malformed env_ok (capture_request ''not-a-url'' ''user_42'')
   \<and> fetch env_ok (capture_request ''not-a-url'' ''user_42'') constructor
       = (Inl TypeError, constructor, [])
   \<and> url_missing (capture_request [] ''user_42'')
   \<and> fetch env_ok (capture_request [] ''user_42'') constructor
       = (Inr missing_url_response, constructor, [])
   \<and> user_missing (capture_request ''https://example.com'' [])
   \<and> fetch env_ok (capture_request ''https://example.com'' []) constructor
       = (Inr missing_user_response, constructor, [])
   \<and> fetch2 env_ok (capture_request ''https://example.com'' []) constructor
       = (Inr (Response (Text ''User ID not found'') 400), constructor, [])
   \<and> url2_malformed env_ok (capture_request ''not-a-url'' ''user_42'')
   \<and> fetch2 env_ok (capture_request ''not-a-url'' ''user_42'') constructor
       = (Inl TypeError, constructor, [])"
  using C2_rejected_before_browser [of "capture_request ''not-a-url'' ''user_42''" env_ok constructor]
    C2_rejected_before_browser [of "capture_request [] ''user_42''" env_ok constructor]
    C2_rejected_before_browser [of "capture_request ''https://example.com'' []" env_ok constructor]
  by (simp add: url_missing_def url_malformed_def url2_malformed_def user_missing_def
      env_ok_def capture_request_def)

subsection \<open>C3: the storage key and the returned id\<close>

text \<open>
  Claim C3 as stated fails: the success result does not carry the key the artifact was
  written under, it carries the capture id alone.
\<close>

theorem C3_response_carries_id_only:
  "(case fetch env_ok (capture_request ''https://example.com'' ''user_42'') constructor of
      (res, s, evs) \<Rightarrow>
        res = Inr (json_response [(''success'', JBool True), (''key'', JString ''O123456'')] 200)
        \<and> put_keys evs = [''captures/user-dXNlcl80Mg==/O123456.jpg'']
        \<and> spec_response_keys (json_response [(''success'', JBool True), (''key'', JString ''O123456'')] 200)
             \<noteq> put_keys evs)"
  by (simp add: fetch_def Let_def env_ok_def capture_request_def constructor_def
      acquire_def page_operations_unfold first_alarm_def getAlarm_def setAlarm_def
      put_keys_def json_response_def
      generateId_def customAlphabet_def id_alphabet_def upt_rec
      btoa_def b64_digit_def b64_alphabet_def)

text \<open>
  Claim C3, amended: every successful capture of \<open>fetch\<close> writes the artifact to the bucket under
  exactly one key, \<open>captures/user-{btoa(userId)}/{captureId}.jpg\<close>, where the capture id
  is the marker \<open>O\<close> followed by six characters of the 62-letter alphanumeric alphabet,
  and the success result carries that capture id in its \<open>key\<close> field.
\<close>

theorem C3_key_written_and_id_returned:
  assumes "fetch e r s = (Inr resp, s', evs)" and "status resp = 200"
  shows "\<exists>uid token.
     headers r ''user-id'' = Some uid \<and> uid \<noteq> []
     \<and> generateId (random e) None = CHR ''O'' # token
     \<and> length token = 6 \<and> set token \<subseteq> set id_alphabet
     \<and> put_keys evs = [''captures/user-'' @ btoa uid @ ''/'' @ (CHR ''O'' # token) @ ''.jpg'']
     \<and> resp = json_response [(''success'', JBool True), (''key'', JString (CHR ''O'' # token))] 200"
  using assms(1)
proof (cases rule: fetch_cases)
  case (success u href uid s1 ev1 ev2 ev3)
  let ?token = "customAlphabet id_alphabet 6 (random e)"
  note shape = generateId_shape [of "random e"]
  from success(7) have "put_keys ev2 =
      [''captures/user-'' @ btoa uid @ ''/'' @ generateId (random e) None @ ''.jpg'']"
    by (auto dest!: page_operations_True simp: put_keys_def)
  with success(6,8,10) have "put_keys evs =
      [''captures/user-'' @ btoa uid @ ''/'' @ generateId (random e) None @ ''.jpg'']"
    by (simp add: put_keys_append acquire_no_put first_alarm_no_put)
  with success(4,5,9) shape show ?thesis
    by auto
qed (use assms(2) in \<open>simp_all add: json_response_def\<close>)

theorem C3_key_written_and_id_returned_witness:
  "\<exists>s' evs uid token.
     fetch env_ok (capture_request ''https://example.com'' ''user_42'') constructor
       = (Inr (json_response [(''success'', JBool True), (''key'', JString (CHR ''O'' # token))] 200),
          s', evs)
     \<and> headers (capture_request ''https://example.com'' ''user_42'') ''user-id'' = Some uid
     \<and> length token = 6
     \<and> put_keys evs = [''captures/user-'' @ btoa uid @ ''/'' @ (CHR ''O'' # token) @ ''.jpg'']"
proof -
  obtain res s' evs where
    f: "fetch env_ok (capture_request ''https://example.com'' ''user_42'') constructor = (res, s', evs)"
    by (cases "fetch env_ok (capture_request ''https://example.com'' ''user_42'') constructor") auto
  then have res: "res = Inr (json_response [(''success'', JBool True), (''key'', JString ''O123456'')] 200)"
    by (simp add: fetch_def Let_def env_ok_def capture_request_def constructor_def
      acquire_def page_operations_unfold first_alarm_def getAlarm_def setAlarm_def
      generateId_def customAlphabet_def id_alphabet_def upt_rec)
  have st: "status (json_response [(''success'', JBool True), (''key'', JString ''O123456'')] 200) = 200"
    by (simp add: json_response_def)
  from C3_key_written_and_id_returned [OF f [unfolded res] st] f res show ?thesis
    by auto
qed

subsection \<open>C4: the idle countdown\<close>

text \<open>
  Claim C4 as stated fails: when the \<open>close()\<close> of the threshold tick rejects, \<open>alarm()\<close>
  throws, the runtime invokes it again, and the retry takes the counter past the
  threshold, to 70, and calls \<open>close()\<close> a second time.
\<close>

theorem C4_close_called_again:
  "(case run retry_ticks (warm_session, []) of
      (s', tr) \<Rightarrow>
        keptAliveInSeconds s' = 70 \<and> browser_closes tr = 2
        \<and> tr = [(SetAlarm 15000, True), (SetAlarm 15000, True), (SetAlarm 15000, True),
                 (SetAlarm 15000, True), (SetAlarm 15000, True),
                 (BrowserClose, False), (BrowserClose, True)])"
  by (simp add: retry_ticks_def warm_session_def deliver_env_ok_below deliver_env_ok_rejecting
      deliver_env_ok_retry browser_closes_def)

text \<open>
  Claim C4, amended: start from any state with a live handle and at most one alarm
  pending, and deliver ticks with no capture in between. With no alarm pending no tick
  fires and nothing changes. Otherwise every tick adds exactly 10 to the counter. The
  first \<open>m\<close> ticks, those that leave the counter below 60, set one alarm each and leave
  the browser alone. Every later tick calls \<open>close()\<close> once and sets no alarm: when the
  call resolves the handle is disconnected, no alarm is pending and no further tick
  fires; when it rejects the alarm stays pending for the retry, which adds 10 again and
  calls \<open>close()\<close> again. So \<open>close()\<close> is called once more than it rejected, and exactly
  once, at the threshold, when the first call resolves.
\<close>

theorem C4_idle_countdown:
  assumes "browser s = Some b" and "connected b" and "length (storage s) \<le> 1"
    and "run (ticks es) (s, []) = (s', tr)"
    and "m = nat ((KEEP_BROWSER_ALIVE_IN_SECONDS - 1 - keptAliveInSeconds s) div 10)"
    and "rej = length (takeWhile (\<lambda>e. \<not> browserClose_ok e) (drop m es))"
  shows "(storage s = [] \<longrightarrow> s' = s \<and> tr = [])
     \<and> (storage s \<noteq> [] \<and> length es \<le> m \<longrightarrow>
          keptAliveInSeconds s' = keptAliveInSeconds s + 10 * int (length es)
          \<and> (es \<noteq> [] \<longrightarrow> keptAliveInSeconds s' < KEEP_BROWSER_ALIVE_IN_SECONDS)
          \<and> browser s' = Some b \<and> browser_closes tr = 0 \<and> alarms_set tr = length es
          \<and> length (storage s') = 1)
     \<and> (storage s \<noteq> [] \<and> m < length es \<longrightarrow>
          browser_closes tr = min (length es - m) (rej + 1)
          \<and> keptAliveInSeconds s' = keptAliveInSeconds s + 10 * int (m + browser_closes tr)
          \<and> KEEP_BROWSER_ALIVE_IN_SECONDS \<le> keptAliveInSeconds s'
          \<and> alarms_set tr = m
          \<and> (rej < length es - m \<longrightarrow>
                storage s' = [] \<and> browser s' = Some (b\<lparr>connected := False\<rparr>))
          \<and> (rej = length es - m \<longrightarrow> length (storage s') = 1 \<and> browser s' = Some b))"
proof -
  have A: "storage s = [] \<longrightarrow> s' = s \<and> tr = []"
  proof
    assume "storage s = []"
    from run_ticks_nothing [OF this, of es "[]"] assms(4) show "s' = s \<and> tr = []"
      by simp
  qed
  have B: "storage s \<noteq> [] \<and> length es \<le> m \<longrightarrow>
          keptAliveInSeconds s' = keptAliveInSeconds s + 10 * int (length es)
          \<and> (es \<noteq> [] \<longrightarrow> keptAliveInSeconds s' < KEEP_BROWSER_ALIVE_IN_SECONDS)
          \<and> browser s' = Some b \<and> browser_closes tr = 0 \<and> alarms_set tr = length es
          \<and> length (storage s') = 1"
  proof
    assume a: "storage s \<noteq> [] \<and> length es \<le> m"
    with assms(3) obtain t where t: "storage s = [t]"
      by (cases "storage s") auto
    have lt: "es \<noteq> [] \<longrightarrow>
        keptAliveInSeconds s + 10 * int (length es) < KEEP_BROWSER_ALIVE_IN_SECONDS"
      using a assms(5) by (auto intro!: below_count)
    from ticks_below [OF t lt assms(4)] lt assms(1) show
      "keptAliveInSeconds s' = keptAliveInSeconds s + 10 * int (length es)
       \<and> (es \<noteq> [] \<longrightarrow> keptAliveInSeconds s' < KEEP_BROWSER_ALIVE_IN_SECONDS)
       \<and> browser s' = Some b \<and> browser_closes tr = 0 \<and> alarms_set tr = length es
       \<and> length (storage s') = 1"
      by (simp add: browser_closes_def alarms_set_def)
  qed
  have C: "storage s \<noteq> [] \<and> m < length es \<longrightarrow>
          browser_closes tr = min (length es - m) (rej + 1)
          \<and> keptAliveInSeconds s' = keptAliveInSeconds s + 10 * int (m + browser_closes tr)
          \<and> KEEP_BROWSER_ALIVE_IN_SECONDS \<le> keptAliveInSeconds s'
          \<and> alarms_set tr = m
          \<and> (rej < length es - m \<longrightarrow>
                storage s' = [] \<and> browser s' = Some (b\<lparr>connected := False\<rparr>))
          \<and> (rej = length es - m \<longrightarrow> length (storage s') = 1 \<and> browser s' = Some b)"
  proof
    assume a: "storage s \<noteq> [] \<and> m < length es"
    with assms(3) obtain t where t: "storage s = [t]"
      by (cases "storage s") auto
    obtain s1 tr1 where r1: "run (ticks (take m es)) (s, []) = (s1, tr1)"
      by (cases "run (ticks (take m es)) (s, [])") auto
    with assms(4) have r2: "run (ticks (drop m es)) (s1, tr1) = (s', tr)"
      using run_ticks_split [of es "(s, [])" m] by simp
    from a have len: "length (take m es) = m" by simp
    have lt: "take m es \<noteq> [] \<longrightarrow>
        keptAliveInSeconds s + 10 * int (length (take m es)) < KEEP_BROWSER_ALIVE_IN_SECONDS"
      unfolding len using assms(5) by (auto intro!: below_count)
    from ticks_below [OF t lt r1] len assms(1)
    have s1: "keptAliveInSeconds s1 = keptAliveInSeconds s + 10 * int m" "browser s1 = Some b"
        "browser_closes tr1 = 0" "alarms_set tr1 = m" "length (storage s1) = 1"
      by (simp_all add: browser_closes_def alarms_set_def)
    from s1(5) obtain t1 where t1: "storage s1 = [t1]"
      by (cases "storage s1") auto
    have thr: "KEEP_BROWSER_ALIVE_IN_SECONDS \<le> keptAliveInSeconds s1 + 10"
      unfolding s1(1) assms(5) by (rule threshold_count)
    note td = ticks_teardown [OF s1(2) t1 thr r2 assms(6)]
    from a have pos: "0 < length es - m" by simp
    from td s1 have c: "browser_closes tr = min (length es - m) (rej + 1)"
      by simp
    from td s1 c have k: "keptAliveInSeconds s' = keptAliveInSeconds s + 10 * int (m + browser_closes tr)"
      by simp
    from c pos have "1 \<le> browser_closes tr" by simp
    with k s1(1) thr have ge: "KEEP_BROWSER_ALIVE_IN_SECONDS \<le> keptAliveInSeconds s'"
      by simp
    from td s1 have al: "alarms_set tr = m" by simp
    from td have d1: "rej < length es - m \<longrightarrow>
        storage s' = [] \<and> browser s' = Some (b\<lparr>connected := False\<rparr>)"
      by simp
    from td t1 have d2: "rej = length es - m \<longrightarrow> length (storage s') = 1 \<and> browser s' = Some b"
      by simp
    from c k ge al d1 d2 show
      "browser_closes tr = min (length es - m) (rej + 1)
       \<and> keptAliveInSeconds s' = keptAliveInSeconds s + 10 * int (m + browser_closes tr)
       \<and> KEEP_BROWSER_ALIVE_IN_SECONDS \<le> keptAliveInSeconds s'
       \<and> alarms_set tr = m
       \<and> (rej < length es - m \<longrightarrow>
             storage s' = [] \<and> browser s' = Some (b\<lparr>connected := False\<rparr>))
       \<and> (rej = length es - m \<longrightarrow> length (storage s') = 1 \<and> browser s' = Some b)"
      by blast
  qed
  from A B C show ?thesis by (intro conjI)
qed

theorem C4_idle_countdown_witness:
  "(\<exists>s' tr.
      run (ticks [env_ok, env_ok, env_ok, env_ok, env_ok, env_ok, env_ok]) (warm_session, [])
        = (s', tr)
      \<and> keptAliveInSeconds s' = 60 \<and> browser_closes tr = 1 \<and> alarms_set tr = 5
      \<and> storage s' = [] \<and> browser s' = Some \<lparr>ident = 1, connected = False\<rparr>)
   \<and> (\<exists>s' tr.
      run (ticks [env_ok, env_ok, env_ok, env_ok, env_ok,
                  env_ok\<lparr>browserClose_ok := False\<rparr>, env_ok]) (warm_session, [])
        = (s', tr)
      \<and> keptAliveInSeconds s' = 70 \<and> browser_closes tr = 2 \<and> alarms_set tr = 5
      \<and> storage s' = [] \<and> browser s' = Some \<lparr>ident = 1, connected = False\<rparr>)
   \<and> (\<exists>s' tr.
      run (ticks [env_ok, env_ok, env_ok]) (warm_session, []) = (s', tr)
      \<and> keptAliveInSeconds s' = 30 \<and> browser_closes tr = 0 \<and> alarms_set tr = 3
      \<and> browser s' = Some \<lparr>ident = 1, connected = True\<rparr>)
   \<and> (\<exists>tr0.
        run [(env_ok\<lparr>goto_ok := (\<lambda>i. False)\<rparr>,
              Capture (capture_request ''https://example.com'' ''user_42''))] (constructor, [])
          = (warm_session\<lparr>storage := []\<rparr>, tr0))
   \<and> run (ticks [env_ok, env_ok]) (warm_session\<lparr>storage := []\<rparr>, [])
        = (warm_session\<lparr>storage := []\<rparr>, [])"
proof -
  have warm: "browser warm_session = Some \<lparr>ident = 1, connected = True\<rparr>"
      "connected \<lparr>ident = 1, connected = True\<rparr>" "length (storage warm_session) \<le> 1"
    and m: "5 = nat ((KEEP_BROWSER_ALIVE_IN_SECONDS - 1 - keptAliveInSeconds warm_session) div 10)"
    by (simp_all add: warm_session_def KEEP_BROWSER_ALIVE_IN_SECONDS_def)
  have cold: "browser (warm_session\<lparr>storage := []\<rparr>) = Some \<lparr>ident = 1, connected = True\<rparr>"
      "length (storage (warm_session\<lparr>storage := []\<rparr>)) \<le> 1"
    and m': "5 = nat ((KEEP_BROWSER_ALIVE_IN_SECONDS - 1
         - keptAliveInSeconds (warm_session\<lparr>storage := []\<rparr>)) div 10)"
    by (simp_all add: warm_session_def KEEP_BROWSER_ALIVE_IN_SECONDS_def)
  let ?es1 = "[env_ok, env_ok, env_ok, env_ok, env_ok, env_ok, env_ok]"
  let ?es2 = "[env_ok, env_ok, env_ok, env_ok, env_ok, env_ok\<lparr>browserClose_ok := False\<rparr>, env_ok]"
  let ?es3 = "[env_ok, env_ok, env_ok]"
  let ?es4 = "[env_ok, env_ok]"
  obtain s1 tr1 where r1: "run (ticks ?es1) (warm_session, []) = (s1, tr1)"
    by (cases "run (ticks ?es1) (warm_session, [])") auto
  obtain s2 tr2 where r2: "run (ticks ?es2) (warm_session, []) = (s2, tr2)"
    by (cases "run (ticks ?es2) (warm_session, [])") auto
  obtain s3 tr3 where r3: "run (ticks ?es3) (warm_session, []) = (s3, tr3)"
    by (cases "run (ticks ?es3) (warm_session, [])") auto
  obtain s4 tr4 where r4: "run (ticks ?es4) (warm_session\<lparr>storage := []\<rparr>, []) = (s4, tr4)"
    by (cases "run (ticks ?es4) (warm_session\<lparr>storage := []\<rparr>, [])") auto
  have 1: "keptAliveInSeconds s1 = 60 \<and> browser_closes tr1 = 1 \<and> alarms_set tr1 = 5
      \<and> storage s1 = [] \<and> browser s1 = Some \<lparr>ident = 1, connected = False\<rparr>"
    using C4_idle_countdown [OF warm r1 m refl]
    by (simp add: warm_session_def env_ok_def)
  have 2: "keptAliveInSeconds s2 = 70 \<and> browser_closes tr2 = 2 \<and> alarms_set tr2 = 5
      \<and> storage s2 = [] \<and> browser s2 = Some \<lparr>ident = 1, connected = False\<rparr>"
    using C4_idle_countdown [OF warm r2 m refl]
    by (simp add: warm_session_def env_ok_def)
  have 3: "keptAliveInSeconds s3 = 30 \<and> browser_closes tr3 = 0 \<and> alarms_set tr3 = 3
      \<and> browser s3 = Some \<lparr>ident = 1, connected = True\<rparr>"
    using C4_idle_countdown [OF warm r3 m refl]
    by (simp add: warm_session_def)
  have 4: "s4 = warm_session\<lparr>storage := []\<rparr> \<and> tr4 = []"
    using C4_idle_countdown [OF cold(1) warm(2) cold(2) r4 m' refl]
    by simp
  have 5: "\<exists>tr0.
        run [(env_ok\<lparr>goto_ok := (\<lambda>i. False)\<rparr>,
              Capture (capture_request ''https://example.com'' ''user_42''))] (constructor, [])
          = (warm_session\<lparr>storage := []\<rparr>, tr0)"
    by (simp add: fetch_def Let_def env_ok_def capture_request_def constructor_def acquire_def
        page_operations_unfold warm_session_def)
  from 1 2 3 4 5 r1 r2 r3 r4 show ?thesis by simp
qed

subsection \<open>C5: the handle field\<close>

text \<open>
  Claim C5 as stated fails: after a capture and the six ticks of the idle countdown the
  teardown has completed, and the handle field is still not null.
\<close>

theorem C5_handle_not_null_after_teardown:
  "(case run idle_script (constructor, []) of
      (s, tr) \<Rightarrow> browser s \<noteq> None \<and> \<not> spec_handle_live tr)"
  by (simp add: run_idle_script spec_handle_live_def handle_step_def)

text \<open>
  Claim C5, amended: in every reachable state the handle field is non-null if and only
  if some launch has succeeded; it is never reset. After an idle-threshold teardown it
  still refers to the closed browser, which reports itself disconnected, and a failed
  launch leaves the field as it was. What goes with \<open>a launch succeeded and no teardown
  has completed since\<close> is the handle being non-null and connected: a connected handle
  implies it, and the two are equivalent as long as the remote browser does not drop its
  connection by itself.
\<close>

theorem C5_handle_kept_after_teardown:
  assumes "run script (constructor, []) = (s, tr)"
  shows "(browser s \<noteq> None) = launched tr
     \<and> (usable s \<longrightarrow> spec_handle_live tr)
     \<and> (Disconnect \<notin> snd ` set script \<longrightarrow> usable s = spec_handle_live tr)
     \<and> (\<forall>e r res s' evs.
          (fetch e r s = (res, s', evs) \<or> fetch2 e r s = (res, s', evs))
            \<and> (Launch, False) \<in> set evs \<longrightarrow> browser s' = browser s)
     \<and> (\<forall>e s' evs.
          deliver e s = (s', evs) \<and> (BrowserClose, True) \<in> set evs \<longrightarrow>
            browser s' \<noteq> None \<and> \<not> usable s')"
proof -
  have init: "(browser constructor \<noteq> None) = launched []"
      "usable constructor \<longrightarrow> spec_handle_live []"
      "spec_handle_live [] \<longrightarrow> usable constructor"
    by (simp_all add: constructor_def launched_def usable_def spec_handle_live_def)
  from run_handle_inv [OF init(1,2) assms]
  have 1: "(browser s \<noteq> None) = launched tr" "usable s \<longrightarrow> spec_handle_live tr"
    by simp_all
  have 2: "Disconnect \<notin> snd ` set script \<longrightarrow> usable s = spec_handle_live tr"
    using run_handle_conv [OF init(3) _ assms] 1(2) by blast
  have 3: "browser s' = browser s"
    if "(fetch e r s = (res, s', evs) \<or> fetch2 e r s = (res, s', evs)) \<and> (Launch, False) \<in> set evs"
    for e r res s' evs
    using that fetch_handle [of e r s res s' evs] fetch2_handle [of e r s res s' evs]
    by (auto split: if_splits)
  have 4: "browser s' \<noteq> None \<and> \<not> usable s'"
    if "deliver e s = (s', evs) \<and> (BrowserClose, True) \<in> set evs" for e s' evs
    using that deliver_handle [of e s s' evs] by (auto simp: usable_def)
  from 1 2 3 4 show ?thesis by blast
qed

theorem C5_handle_kept_after_teardown_witness:
  "\<exists>s tr.
     run idle_script (constructor, []) = (s, tr)
     \<and> browser s = Some \<lparr>ident = 1, connected = False\<rparr>
     \<and> launched tr \<and> \<not> usable s \<and> \<not> spec_handle_live tr"
proof -
  note r = run_idle_script
  have nd: "Disconnect \<notin> snd ` set idle_script"
    by (simp add: idle_script_def)
  from C5_handle_kept_after_teardown [OF r] nd show ?thesis
    unfolding r by (simp add: usable_def)
qed

subsection \<open>C6: at most one pending alarm\<close>

text \<open>
  Claim C6: after any finite sequence of captures, delivered ticks and disconnections,
  starting from the constructor, at most one alarm is pending; and a capture that finds
  an alarm pending leaves it alone and sets none.
\<close>

theorem C6_at_most_one_alarm:
  assumes "run script (constructor, []) = (s, tr)"
  shows "length (storage s) \<le> 1
     \<and> (\<forall>e r res s' evs.
          storage s \<noteq> [] \<and> (fetch e r s = (res, s', evs) \<or> fetch2 e r s = (res, s', evs)) \<longrightarrow>
            storage s' = storage s \<and> alarms_set evs = 0)"
proof -
  have "length (storage constructor) \<le> 1"
    by (simp add: constructor_def)
  from run_storage [OF this assms] show ?thesis
    using fetch_storage fetch2_storage by blast
qed

theorem C6_at_most_one_alarm_witness:
  "\<exists>tr res s' evs.
     run busy_script (constructor, []) = (warm_session, tr)
     \<and> alarms_set tr = 2 \<and> length (storage warm_session) = 1
     \<and> fetch env_ok (capture_request ''https://example.com'' ''user_42'') warm_session
          = (res, s', evs)
     \<and> storage s' = storage warm_session \<and> alarms_set evs = 0"
proof -
  let ?r = "capture_request ''https://example.com'' ''user_42''"
  from run_busy_script obtain tr where
    r: "run busy_script (constructor, []) = (warm_session, tr)" and n: "alarms_set tr = 2"
    by blast
  obtain res s' evs where f: "fetch env_ok ?r warm_session = (res, s', evs)"
    by (cases "fetch env_ok ?r warm_session") auto
  have pending: "storage warm_session \<noteq> []" "length (storage warm_session) = 1"
    by (simp_all add: warm_session_def)
  from C6_at_most_one_alarm [OF r] pending(1) f
  have "storage s' = storage warm_session \<and> alarms_set evs = 0"
    by blast
  with r n pending(2) f show ?thesis by blast
qed

subsection \<open>C7: a capture during the countdown\<close>

text \<open>
  Claim C7: after \<open>N\<close> idle ticks, \<open>0 < N < 6\<close>, the counter stands at \<open>10 * N\<close>; a valid
  capture arriving then resets it to 0, keeps the very same browser handle, and neither
  closes nor launches a browser.
\<close>

theorem C7_capture_resets_countdown:
  assumes "browser s = Some b" and "connected b" and "storage s = [t]"
    and "keptAliveInSeconds s = 0"
    and "0 < N" and "N < 6" and "length es = N"
    and "run (ticks es) (s, []) = (s1, tr1)"
    and "\<not> url_missing r" and "\<not> url_malformed e r" and "\<not> user_missing r"
    and "fetch e r s1 = (res, s2, evs)"
  shows "keptAliveInSeconds s1 = 10 * int N \<and> keptAliveInSeconds s2 = 0
     \<and> browser s2 = Some b \<and> browser_closes (tr1 @ evs) = 0 \<and> launches evs = 0"
proof -
  have lt: "es \<noteq> [] \<longrightarrow>
      keptAliveInSeconds s + 10 * int (length es) < KEEP_BROWSER_ALIVE_IN_SECONDS"
    using assms(4,6,7) by (simp add: KEEP_BROWSER_ALIVE_IN_SECONDS_def)
  from ticks_below [OF assms(3) lt assms(8)] assms(1,4,7)
  have s1: "keptAliveInSeconds s1 = 10 * int N" "browser s1 = Some b" "browser_closes tr1 = 0"
    by (simp_all add: browser_closes_def)
  from fetch_live [OF s1(2) assms(2,9,10,11,12)] s1 show ?thesis
    by (simp add: browser_closes_append)
qed

theorem C7_capture_resets_countdown_witness:
  "\<exists>s1 tr1 res s2 evs.
     run (ticks (replicate 5 env_ok)) (warm_session, []) = (s1, tr1)
     \<and> fetch env_ok (capture_request ''https://example.com'' ''user_42'') s1 = (res, s2, evs)
     \<and> keptAliveInSeconds s1 = 50 \<and> keptAliveInSeconds s2 = 0
     \<and> browser s2 = Some \<lparr>ident = 1, connected = True\<rparr>
     \<and> browser_closes (tr1 @ evs) = 0 \<and> launches evs = 0"
proof -
  let ?r = "capture_request ''https://example.com'' ''user_42''"
  obtain s1 tr1 where r: "run (ticks (replicate 5 env_ok)) (warm_session, []) = (s1, tr1)"
    by (cases "run (ticks (replicate 5 env_ok)) (warm_session, [])") auto
  obtain res s2 evs where f: "fetch env_ok ?r s1 = (res, s2, evs)"
    by (cases "fetch env_ok ?r s1") auto
  have warm: "browser warm_session = Some \<lparr>ident = 1, connected = True\<rparr>"
      "connected \<lparr>ident = 1, connected = True\<rparr>"
      "storage warm_session = [15000]"
      "keptAliveInSeconds warm_session = 0"
      "0 < (5::nat)" "(5::nat) < 6" "length (replicate 5 env_ok) = 5"
    by (simp_all add: warm_session_def)
  have valid: "\<not> url_missing ?r" "\<not> url_malformed env_ok ?r" "\<not> user_missing ?r"
    by (simp_all add: url_missing_def url_malformed_def user_missing_def capture_request_def
        env_ok_def)
  from C7_capture_resets_countdown [OF warm r valid f] r f show ?thesis by auto
qed

subsection \<open>C8: a failing teardown\<close>

text \<open>
  Claim C8 as stated fails: when \<open>browser.close()\<close> rejects on the teardown path, \<open>alarm\<close>
  does not complete normally.
\<close>

theorem C8_close_failure_propagates:
  "fst (alarm (env_ok\<lparr>browserClose_ok := False\<rparr>)
         \<lparr>browser = Some \<lparr>ident = 1, connected = True\<rparr>, keptAliveInSeconds = 50, storage = []\<rparr>)
     \<noteq> Inr ()"
  by (simp add: alarm_def Let_def env_ok_def KEEP_BROWSER_ALIVE_IN_SECONDS_def)

text \<open>
  Claim C8, amended: when the teardown path runs and \<open>browser.close()\<close> rejects, the
  rejection leaves \<open>alarm\<close> uncaught. The counter keeps its incremented value, no alarm
  is set, and the handle field still refers to the same browser.
\<close>

theorem C8_teardown_failure:
  assumes "browser s = Some b"
    and "KEEP_BROWSER_ALIVE_IN_SECONDS \<le> keptAliveInSeconds s + 10"
    and "\<not> browserClose_ok e"
  shows "alarm e s =
     (Inl CloseError, s\<lparr>keptAliveInSeconds := keptAliveInSeconds s + 10\<rparr>, [(BrowserClose, False)])"
  using assms by (simp add: alarm_def Let_def)

theorem C8_teardown_failure_witness:
  "alarm (env_ok\<lparr>browserClose_ok := False\<rparr>)
         \<lparr>browser = Some \<lparr>ident = 1, connected = True\<rparr>, keptAliveInSeconds = 50, storage = []\<rparr>
   = (Inl CloseError,
      \<lparr>browser = Some \<lparr>ident = 1, connected = True\<rparr>, keptAliveInSeconds = 60, storage = []\<rparr>,
      [(BrowserClose, False)])"
  using C8_teardown_failure [of
      "\<lparr>browser = Some \<lparr>ident = 1, connected = True\<rparr>, keptAliveInSeconds = 50, storage = []\<rparr>"
      "\<lparr>ident = 1, connected = True\<rparr>" "env_ok\<lparr>browserClose_ok := False\<rparr>"]
  by (simp add: env_ok_def KEEP_BROWSER_ALIVE_IN_SECONDS_def)

subsection \<open>C9: the shape of the responses\<close>

text \<open>
  Claim C9 as stated fails: the 405 for a disallowed method is a plain-text response of
  the worker, and the 400 of the second \<open>fetch\<close> for a missing user id is plain text
  too; neither is the structured failure payload.
\<close>

theorem C9_plain_text_rejection:
  "(case worker_fetch worker_ok env_ok
           \<lparr>http_method = ''PUT'', headers = Map.empty, formData = None\<rparr> constructor of
      (res, s, evs) \<Rightarrow>
        res = Inr (Response (Text ''Invalid method'') 405)
        \<and> \<not> spec_failure (Response (Text ''Invalid method'') 405))
   \<and>
   (case fetch2 env_ok (capture_request ''https://example.com'' []) constructor of
      (res, s, evs) \<Rightarrow>
        res = Inr (Response (Text ''User ID not found'') 400)
        \<and> \<not> spec_failure (Response (Text ''User ID not found'') 400))"
  by (simp add: worker_fetch_def worker_ok_def fetch2_def Let_def env_ok_def capture_request_def)

text \<open>
  Claim C9, amended: every response \<open>Browser.fetch\<close> (lines 77-148) returns is
  structured. A failure is \<open>{ success: false, error }\<close>, with status 400 exactly for a
  missing URL or user id (no call made) and status 500 when the launch or a page
  operation rejected; a success is \<open>{ success: true, key: <capture id> }\<close> with status
  200, all calls having resolved. The worker's own rejections for a signed-in user, 405
  for a method other than GET and POST and 400 for a POST whose body parses as a form and
  has no url field, are plain text; a POST whose body does not parse as a form gets no
  response from the worker, \<open>formData()\<close> throws. The failures of the second \<open>fetch\<close> are
  plain text as well (400 for a missing user id, 500 otherwise).
\<close>

theorem C9_response_shapes:
  "(fetch e r s = (Inr resp, s', evs) \<longrightarrow>
      (status resp = 400 \<and> spec_failure resp \<and> (url_missing r \<or> user_missing r) \<and> evs = [])
      \<or> (status resp = 500 \<and> spec_failure resp \<and> (\<exists>c. (c, False) \<in> set evs))
      \<or> (resp = json_response [(''success'', JBool True),
                   (''key'', JString (generateId (random e) None))] 200
          \<and> (\<forall>ev\<in>set evs. snd ev)))
   \<and> (clerk w = Some (authUserId, signInUrl) \<and> \<not> falsy authUserId
        \<and> http_method r \<noteq> ''GET'' \<and> http_method r \<noteq> ''POST'' \<longrightarrow>
        worker_fetch w e r s = (Inr (Response (Text ''Invalid method'') 405), s, []))
   \<and> (clerk w = Some (authUserId, signInUrl) \<and> \<not> falsy authUserId
        \<and> http_method r = ''POST''
        \<and> (case formData r of None \<Rightarrow> False | Some form \<Rightarrow> falsy (form ''url'')) \<longrightarrow>
        worker_fetch w e r s = (Inr (Response (Text ''Invalid capture options'') 400), s, []))
   \<and> (clerk w = Some (authUserId, signInUrl) \<and> \<not> falsy authUserId
        \<and> http_method r = ''POST'' \<and> formData r = None \<longrightarrow>
        worker_fetch w e r s = (Inl TypeError, s, []))
   \<and> (fetch2 e r s = (Inr resp, s', evs) \<and> status resp \<noteq> 200 \<longrightarrow>
        resp = Response (Text ''User ID not found'') 400 \<and> user_missing r \<and> evs = []
        \<or> (\<exists>msg. resp = Response (Text msg) 500) \<and> (\<exists>c. (c, False) \<in> set evs))"
proof (intro conjI impI)
  assume f: "fetch e r s = (Inr resp, s', evs)"
  then show "(status resp = 400 \<and> spec_failure resp \<and> (url_missing r \<or> user_missing r) \<and> evs = [])
      \<or> (status resp = 500 \<and> spec_failure resp \<and> (\<exists>c. (c, False) \<in> set evs))
      \<or> (resp = json_response [(''success'', JBool True),
                   (''key'', JString (generateId (random e) None))] 200
          \<and> (\<forall>ev\<in>set evs. snd ev))"
  proof (cases rule: fetch_cases)
    case missing_url
    then show ?thesis by (simp add: json_response_def url_missing_def)
  next
    case (bad_url u)
    then show ?thesis by simp
  next
    case (missing_user u href)
    then show ?thesis by (simp add: json_response_def user_missing_def)
  next
    case (launch_failed u href uid)
    from launch_failed(6) have "(Launch, False) \<in> set evs"
      by (simp add: acquire_False)
    with launch_failed(7) show ?thesis
      by (auto simp: json_response_def)
  next
    case (page_failed u href uid s1 ev1 ev2)
    from page_failed(7) obtain c where "(c, False) \<in> set ev2"
      by (auto dest: page_operations_False)
    with page_failed(8,10) show ?thesis
      by (auto simp: json_response_def)
  next
    case (success u href uid s1 ev1 ev2 ev3)
    from success(7) have "\<forall>ev\<in>set ev2. snd ev"
      by (auto dest!: page_operations_True)
    with acquire_True_resolved [OF success(6)] first_alarm_resolved [OF success(8)] success(9,10)
    show ?thesis by auto
  qed
next
  assume "clerk w = Some (authUserId, signInUrl) \<and> \<not> falsy authUserId
        \<and> http_method r \<noteq> ''GET'' \<and> http_method r \<noteq> ''POST''"
  then show "worker_fetch w e r s = (Inr (Response (Text ''Invalid method'') 405), s, [])"
    by (cases authUserId) (simp_all add: worker_fetch_def)
next
  assume a: "clerk w = Some (authUserId, signInUrl) \<and> \<not> falsy authUserId
        \<and> http_method r = ''POST''
        \<and> (case formData r of None \<Rightarrow> False | Some form \<Rightarrow> falsy (form ''url''))"
  then obtain form where form: "formData r = Some form" "falsy (form ''url'')"
    by (cases "formData r") auto
  with a show "worker_fetch w e r s =
          (Inr (Response (Text ''Invalid capture options'') 400), s, [])"
    by (cases authUserId; cases "form ''url''") (simp_all add: worker_fetch_def)
next
  assume "clerk w = Some (authUserId, signInUrl) \<and> \<not> falsy authUserId
        \<and> http_method r = ''POST'' \<and> formData r = None"
  then show "worker_fetch w e r s = (Inl TypeError, s, [])"
    by (cases authUserId) (simp_all add: worker_fetch_def)
next
  assume "fetch2 e r s = (Inr resp, s', evs) \<and> status resp \<noteq> 200"
  then have f: "fetch2 e r s = (Inr resp, s', evs)" and st: "status resp \<noteq> 200"
    by simp_all
  from f show "resp = Response (Text ''User ID not found'') 400 \<and> user_missing r \<and> evs = []
        \<or> (\<exists>msg. resp = Response (Text msg) 500) \<and> (\<exists>c. (c, False) \<in> set evs)"
  proof (cases rule: fetch2_cases)
    case bad_url
    then show ?thesis by simp
  next
    case (missing_user href)
    then show ?thesis by (simp add: user_missing_def)
  next
    case (launch_failed href uid)
    from launch_failed(4) have "(Launch, False) \<in> set evs"
      by (simp add: acquire_False)
    with launch_failed(5) show ?thesis by auto
  next
    case (page_failed href uid s1 ev1 ev2)
    from page_failed(5) obtain c where "(c, False) \<in> set ev2"
      by (auto dest: page_operations2_None)
    with page_failed(6,8) show ?thesis by auto
  next
    case (success href uid s1 ev1 ev2 ev3 captureKey)
    with st show ?thesis by (simp add: json_response_def)
  qed
qed

theorem C9_response_shapes_witness:
  "(\<exists>s' evs.
      fetch env_ok (capture_request ''https://example.com'' ''user_42'') constructor
        = (Inr (json_response [(''success'', JBool True), (''key'', JString ''O123456'')] 200), s', evs)
      \<and> list_all snd evs)
   \<and> fetch (env_ok\<lparr>launch_result := None\<rparr>) (capture_request ''https://example.com'' ''user_42'')
        constructor
        = (Inr (json_response [(''success'', JBool False),
                  (''error'', JString ''Failed to start browser'')] 500),
           constructor, [(Launch, False)])
   \<and> spec_failure (json_response [(''success'', JBool False),
                  (''error'', JString ''Failed to start browser'')] 500)
   \<and> worker_fetch worker_ok env_ok
        \<lparr>http_method = ''PUT'', headers = Map.empty, formData = None\<rparr> constructor
        = (Inr (Response (Text ''Invalid method'') 405), constructor, [])
   \<and> worker_fetch worker_ok env_ok
        \<lparr>http_method = ''POST'', headers = Map.empty, formData = Some Map.empty\<rparr> constructor
        = (Inr (Response (Text ''Invalid capture options'') 400), constructor, [])
   \<and> worker_fetch worker_ok env_ok
        \<lparr>http_method = ''POST'', headers = Map.empty, formData = None\<rparr> constructor
        = (Inl TypeError, constructor, [])
   \<and> fetch2 env_ok (capture_request ''https://example.com'' []) constructor
        = (Inr (Response (Text ''User ID not found'') 400), constructor, [])"
proof -
  let ?r = "capture_request ''https://example.com'' ''user_42''"
  obtain res s' evs where f: "fetch env_ok ?r constructor = (res, s', evs)"
    by (cases "fetch env_ok ?r constructor") auto
  then have res: "res = Inr (json_response [(''success'', JBool True), (''key'', JString ''O123456'')] 200)"
    by (simp add: fetch_def Let_def env_ok_def capture_request_def constructor_def
      acquire_def page_operations_unfold first_alarm_def getAlarm_def setAlarm_def
      generateId_def customAlphabet_def id_alphabet_def upt_rec)
  from C9_response_shapes [where e = env_ok and r = ?r and s = constructor
      and resp = "json_response [(''success'', JBool True), (''key'', JString ''O123456'')] 200"
      and s' = s' and evs = evs] f res
  have "\<forall>ev\<in>set evs. snd ev"
    by (simp add: json_response_def)
  then have "list_all snd evs" by (simp add: list_all_iff)
  with f res have 1: "\<exists>s' evs.
      fetch env_ok ?r constructor
        = (Inr (json_response [(''success'', JBool True), (''key'', JString ''O123456'')] 200), s', evs)
      \<and> list_all snd evs"
    by auto
  have 2: "fetch (env_ok\<lparr>launch_result := None\<rparr>) ?r constructor
        = (Inr (json_response [(''success'', JBool False),
                  (''error'', JString ''Failed to start browser'')] 500),
           constructor, [(Launch, False)])"
    by (simp add: fetch_def Let_def env_ok_def capture_request_def constructor_def acquire_def)
  have 3: "spec_failure (json_response [(''success'', JBool False),
                  (''error'', JString ''Failed to start browser'')] 500)"
    by (simp add: json_response_def)
  have ck: "clerk worker_ok = Some (Some ''user_42'', ''https://clipster.dev/sign-in'')"
    by (simp add: worker_ok_def)
  have 4: "worker_fetch worker_ok env_ok
        \<lparr>http_method = ''PUT'', headers = Map.empty, formData = None\<rparr> constructor
        = (Inr (Response (Text ''Invalid method'') 405), constructor, [])"
    using C9_response_shapes [where w = worker_ok and e = env_ok and s = constructor
        and r = "\<lparr>http_method = ''PUT'', headers = Map.empty, formData = None\<rparr>"
        and authUserId = "Some ''user_42''" and signInUrl = "''https://clipster.dev/sign-in''"] ck
    by simp
  have 5: "worker_fetch worker_ok env_ok
        \<lparr>http_method = ''POST'', headers = Map.empty, formData = Some Map.empty\<rparr> constructor
        = (Inr (Response (Text ''Invalid capture options'') 400), constructor, [])"
    using C9_response_shapes [where w = worker_ok and e = env_ok and s = constructor
        and r = "\<lparr>http_method = ''POST'', headers = Map.empty, formData = Some Map.empty\<rparr>"
        and authUserId = "Some ''user_42''" and signInUrl = "''https://clipster.dev/sign-in''"] ck
    by simp
  have 7: "worker_fetch worker_ok env_ok
        \<lparr>http_method = ''POST'', headers = Map.empty, formData = None\<rparr> constructor
        = (Inl TypeError, constructor, [])"
    using C9_response_shapes [where w = worker_ok and e = env_ok and s = constructor
        and r = "\<lparr>http_method = ''POST'', headers = Map.empty, formData = None\<rparr>"
        and authUserId = "Some ''user_42''" and signInUrl = "''https://clipster.dev/sign-in''"] ck
    by simp
  have 6: "fetch2 env_ok (capture_request ''https://example.com'' []) constructor
        = (Inr (Response (Text ''User ID not found'') 400), constructor, [])"
    by (simp add: fetch2_def Let_def env_ok_def capture_request_def)
  from 1 2 3 4 5 7 6 show ?thesis by blast
qed

subsection \<open>C10: the full-page flag\<close>

text \<open>
  Claim C10: the \<open>fullPage\<close> option of every screenshot \<open>fetch\<close> takes is the truthiness
  of the \<open>full-page\<close> header, true for any non-empty value (\<open>false\<close> and \<open>0\<close> included)
  and false for an absent or empty header; a successful capture takes exactly one
  screenshot.
\<close>

theorem C10_full_page_truthiness:
  assumes "fetch e r s = (res, s', evs)"
  shows "set (screenshot_flags evs) \<subseteq> {\<not> falsy (headers r ''full-page'')}
     \<and> ((\<exists>resp. res = Inr resp \<and> status resp = 200) \<longrightarrow>
          screenshot_flags evs = [\<not> falsy (headers r ''full-page'')])"
  using assms
proof (cases rule: fetch_cases)
  case (launch_failed u href uid)
  then show ?thesis
    by (auto simp: json_response_def dest: acquire_no_screenshot)
next
  case (page_failed u href uid s1 ev1 ev2)
  with acquire_no_screenshot [OF page_failed(6)] page_operations_screenshot [OF page_failed(7)]
  show ?thesis
    by (auto simp: screenshot_flags_append json_response_def split: if_splits)
next
  case (success u href uid s1 ev1 ev2 ev3)
  from success(7) have "screenshot_flags ev2 = [\<not> falsy (headers r ''full-page'')]"
    by (auto dest!: page_operations_True simp: screenshot_flags_def)
  with acquire_no_screenshot [OF success(6)] first_alarm_no_screenshot [OF success(8)] success(10)
  show ?thesis
    by (simp add: screenshot_flags_append)
qed (simp_all add: screenshot_flags_def json_response_def)

theorem C10_full_page_truthiness_witness:
  "(\<exists>res s' evs. fetch env_ok (full_page_request ''false'') constructor = (res, s', evs)
      \<and> screenshot_flags evs = [True])
   \<and> (\<exists>res s' evs. fetch env_ok (full_page_request ''0'') constructor = (res, s', evs)
      \<and> screenshot_flags evs = [True])
   \<and> (\<exists>res s' evs. fetch env_ok (full_page_request []) constructor = (res, s', evs)
      \<and> screenshot_flags evs = [False])
   \<and> (\<exists>res s' evs.
        fetch env_ok (capture_request ''https://example.com'' ''user_42'') constructor
          = (res, s', evs)
      \<and> screenshot_flags evs = [False])"
proof -
  have main: "\<exists>res s' evs. fetch env_ok r constructor = (res, s', evs)
      \<and> screenshot_flags evs = [\<not> falsy (headers r ''full-page'')]"
    if "headers r ''url'' = Some ''https://example.com''" "headers r ''user-id'' = Some ''user_42''"
    for r
  proof -
    obtain res s' evs where f: "fetch env_ok r constructor = (res, s', evs)"
      by (cases "fetch env_ok r constructor") auto
    with that have "\<exists>resp. res = Inr resp \<and> status resp = 200"
      by (auto simp: fetch_def Let_def env_ok_def constructor_def acquire_def
          page_operations_unfold first_alarm_def getAlarm_def json_response_def)
    with C10_full_page_truthiness [OF f] f show ?thesis by blast
  qed
  from main [of "full_page_request ''false''"] main [of "full_page_request ''0''"]
    main [of "full_page_request []"]
    main [of "capture_request ''https://example.com'' ''user_42''"]
  show ?thesis
    by (simp add: full_page_request_def capture_request_def)
qed

end
